theory Spec2Isabelle
  imports Complex_Main "HOL-Library.Sublist"
begin

section \<open>Conventions\<close>

text \<open>
  The development embeds the correlation core of the detection agent: the behavioural
  engine (\<^verbatim>\<open>BehavioralAnalytics.ts\<close>), the graph correlation engine
  (\<^verbatim>\<open>GraphCorrelationEngine.ts\<close>) and the orchestrator with its rule oracle
  (\<^verbatim>\<open>DetectionAgent.ts\<close>, which also carries \<^verbatim>\<open>LLMService\<close>).

  \<^item> A JavaScript \<^verbatim>\<open>number\<close> that holds a measurement is a \<open>real\<close>; one that only
    counts is a \<open>nat\<close>. Rounding of IEEE doubles is not modelled, and a division by zero
    is HOL's (\<open>x / 0 = 0\<close>) where JavaScript yields \<^verbatim>\<open>Infinity\<close> or \<^verbatim>\<open>NaN\<close>; the places
    where the source divides without a guard are marked.
  \<^item> A \<^verbatim>\<open>Date\<close> is the record of what the code reads from it.
  \<^item> A thrown exception is the \<open>Inl\<close> of a sum; a method that mutates its object takes
    the object's state and returns the new one, also when it throws.
  \<^item> A \<^verbatim>\<open>Map\<close> that is only looked up by key is a HOL map; one that is iterated is an
    association list in insertion order.
\<close>

datatype error =
    NotInitialized
  | DatabaseNotConnected
  | OracleFailure
  | CollaboratorFailure

record Date =
  getTime :: int
  getHours :: nat
  getDay :: nat

record EntityInfo =
  e_id :: string
  e_name :: string
  e_type :: string

record Entities =
  users :: "EntityInfo list"
  hosts :: "EntityInfo list"
  networks :: "EntityInfo list"
  processes :: "EntityInfo list"
  files :: "EntityInfo list"

record SecurityEvent =
  ev_id :: string
  ev_timestamp :: Date
  ev_source :: string
  eventType :: string
  ev_entities :: Entities
  ev_risk_score :: real

text \<open>\<^verbatim>\<open>Object.entries(event.normalizedData.entities)\<close>: the keys in the order in which the
  type declares them.\<close>

definition Object_entries :: "Entities \<Rightarrow> (string \<times> EntityInfo list) list" where
  "Object_entries es =
     [(''users'', users es), (''hosts'', hosts es), (''networks'', networks es),
      (''processes'', processes es), (''files'', files es)]"

text \<open>The two nested \<^verbatim>\<open>for ... of\<close> loops over the entries and their entities visit the
  pairs of this list, in this order.\<close>

definition entityEntries :: "SecurityEvent \<Rightarrow> (string \<times> EntityInfo) list" where
  "entityEntries ev =
     concat (map (\<lambda>(entityType, entities). map (\<lambda>entity. (entityType, entity)) entities)
                 (Object_entries (ev_entities ev)))"

subsection \<open>Rendering numbers in template strings\<close>

fun show_nat :: "nat \<Rightarrow> string" where
  "show_nat n =
     (if n < 10 then [char_of (48 + n)]
      else show_nat (n div 10) @ [char_of (48 + n mod 10)])"

declare show_nat.simps [simp del]

definition show_int :: "int \<Rightarrow> string" where
  "show_int i = (if i < 0 then CHR ''-'' # show_nat (nat (- i)) else show_nat (nat i))"

definition Math_round :: "real \<Rightarrow> int" where
  "Math_round x = \<lfloor>x + 1 / 2\<rfloor>"

section \<open>Behavioural engine\<close>

record BehavioralConfig =
  baselineWindow :: real
  anomalyThreshold :: real
  learningRate :: real
  minSamplesForBaseline :: nat
  updateInterval :: real

record TimingPattern =
  businessHours :: nat
  afterHours :: nat
  weekends :: nat
  holidays :: nat
  peakHours :: "nat list"

record BehaviorPattern =
  p_type :: string
  frequency :: real
  timing :: TimingPattern
  p_context :: "string list"
  variance :: real

record BehaviorMetrics =
  mean :: real
  median :: "real option"
  standardDeviation :: real
  percentiles :: "(nat \<times> real) list"
  outliers :: "real list"

record BehavioralBaseline =
  entityId :: string
  entityType :: string
  patterns :: "BehaviorPattern list"
  metrics :: BehaviorMetrics
  lastUpdated :: Date
  confidence :: real

record BehaviorAnomaly =
  a_type :: string
  a_description :: string
  a_severity :: real
  a_confidence :: real
  a_deviation :: real
  a_baseline :: real
  a_current :: real
  a_timeframe :: string

record PatternAnalysis =
  isAnomaly :: bool
  pa_severity :: real
  pa_confidence :: real
  pa_deviation :: real

record EntityAnalysis =
  ea_anomalies :: "BehaviorAnomaly list"
  ea_riskScore :: real
  ea_confidence :: real

record BaselineComparison =
  bc_overallDeviation :: real
  bc_patternDeviations :: "(string \<times> real) list"
  bc_riskFactors :: "string list"
  bc_normalPatterns :: nat
  bc_anomalousPatterns :: nat

record BehavioralResult =
  br_anomalies :: "BehaviorAnomaly list"
  br_riskScore :: real
  br_confidence :: real
  br_baselineComparison :: BaselineComparison
  br_recommendations :: "string list"

text \<open>The state of a \<^verbatim>\<open>BehavioralAnalytics\<close> object: its baseline map, its flag, and the
  \<^verbatim>\<open>isConnected\<close> flag of the \<^verbatim>\<open>DatabaseService\<close> it writes to. An engine that was
  constructed without a database, as the constructor of \<^verbatim>\<open>DetectionAgent\<close> constructs
  its engine, has the flag false: every write of it throws.\<close>

record BehavioralAnalytics =
  baselines :: "string \<rightharpoonup> BehavioralBaseline"
  ba_isInitialized :: bool
  db_isConnected :: bool

text \<open>\<^verbatim>\<open>DatabaseService.storeBaseline\<close> throws when the database is not connected and
  otherwise only logs.\<close>

definition storeBaseline :: "BehavioralBaseline \<Rightarrow> BehavioralAnalytics \<Rightarrow> error + unit" where
  "storeBaseline baseline s = (if \<not> db_isConnected s then Inl DatabaseNotConnected else Inr ())"

subsection \<open>Scoring one pattern\<close>

definition analyzePattern :: "BehavioralConfig \<Rightarrow> BehaviorPattern \<Rightarrow> real \<Rightarrow> Date \<Rightarrow> PatternAnalysis" where
  "analyzePattern config pattern currentValue timestamp =
     (let mean = frequency pattern;
          stdDev = variance pattern;
          zScore = (if stdDev > 0 then \<bar>currentValue - mean\<bar> / stdDev else 0);
          isAnomaly = (zScore > anomalyThreshold config);
          severity = min 1 (zScore / 3);
          confidence = min 1 (frequency pattern / 100);
          \<comment> \<open>unguarded division by \<open>mean\<close>\<close>
          deviation = (if stdDev > 0 then (\<bar>currentValue - mean\<bar> / mean) * 100 else 0)
      in \<lparr>isAnomaly = isAnomaly, pa_severity = severity, pa_confidence = confidence,
          pa_deviation = deviation\<rparr>)"

definition extractPatternValue :: "SecurityEvent \<Rightarrow> string \<Rightarrow> real" where
  "extractPatternValue event patternType =
     (if patternType = ''login_pattern'' then real (length (users (ev_entities event)))
      else if patternType = ''data_access'' then real (length (files (ev_entities event)))
      else if patternType = ''network_communication'' then real (length (networks (ev_entities event)))
      else if patternType = ''file_operations'' then real (length (files (ev_entities event)))
      else if patternType = ''process_execution'' then real (length (processes (ev_entities event)))
      else if patternType = ''privilege_escalation'' then ev_risk_score event
      else 1)"

definition generateAnomalyDescription :: "BehaviorPattern \<Rightarrow> PatternAnalysis \<Rightarrow> string" where
  "generateAnomalyDescription pattern analysis =
     (let deviationPercent = Math_round (pa_deviation analysis) in
      if pa_deviation analysis > 200 then
        ''Extreme '' @ p_type pattern @ '' activity: '' @ show_int deviationPercent @ ''% above normal''
      else if pa_deviation analysis > 100 then
        ''High '' @ p_type pattern @ '' activity: '' @ show_int deviationPercent @ ''% above normal''
      else if pa_deviation analysis > 50 then
        ''Elevated '' @ p_type pattern @ '' activity: '' @ show_int deviationPercent @ ''% above normal''
      else
        ''Unusual '' @ p_type pattern @ '' activity: '' @ show_int deviationPercent
          @ ''% deviation from normal'')"

definition getTimeframe :: "Date \<Rightarrow> string" where
  "getTimeframe timestamp =
     (let hour = getHours timestamp in
      if hour \<ge> 6 \<and> hour < 12 then ''morning''
      else if hour \<ge> 12 \<and> hour < 18 then ''afternoon''
      else if hour \<ge> 18 \<and> hour < 22 then ''evening''
      else ''night'')"

subsection \<open>Scoring one entity\<close>

text \<open>The accumulators of the loop over \<^verbatim>\<open>baseline.patterns\<close>: the anomalies pushed so
  far, \<^verbatim>\<open>totalRiskScore\<close>, \<^verbatim>\<open>totalConfidence\<close> and \<^verbatim>\<open>analysisCount\<close>.\<close>

type_synonym analysis_acc = "BehaviorAnomaly list \<times> real \<times> real \<times> nat"

definition mkAnomaly :: "BehaviorPattern \<Rightarrow> PatternAnalysis \<Rightarrow> real \<Rightarrow> SecurityEvent \<Rightarrow> BehaviorAnomaly" where
  "mkAnomaly pattern analysis currentValue event =
     \<lparr>a_type = p_type pattern,
      a_description = generateAnomalyDescription pattern analysis,
      a_severity = pa_severity analysis,
      a_confidence = pa_confidence analysis,
      a_deviation = pa_deviation analysis,
      a_baseline = frequency pattern,
      a_current = currentValue,
      a_timeframe = getTimeframe (ev_timestamp event)\<rparr>"

fun analyzePatterns ::
  "BehavioralConfig \<Rightarrow> SecurityEvent \<Rightarrow> BehaviorPattern list \<Rightarrow> analysis_acc \<Rightarrow> analysis_acc" where
  "analyzePatterns config event [] acc = acc"
| "analyzePatterns config event (pattern # rest) (anomalies, totalRiskScore, totalConfidence, analysisCount) =
     (let currentValue = extractPatternValue event (p_type pattern);
          analysis = analyzePattern config pattern currentValue (ev_timestamp event)
      in if isAnomaly analysis then
           analyzePatterns config event rest
             (anomalies @ [mkAnomaly pattern analysis currentValue event],
              totalRiskScore + pa_severity analysis * pa_confidence analysis,
              totalConfidence + pa_confidence analysis,
              analysisCount + 1)
         else analyzePatterns config event rest (anomalies, totalRiskScore, totalConfidence, analysisCount))"

definition initialTiming :: TimingPattern where
  "initialTiming = \<lparr>businessHours = 0, afterHours = 0, weekends = 0, holidays = 0, peakHours = []\<rparr>"

definition initialPattern :: "string \<Rightarrow> BehaviorPattern" where
  "initialPattern t = \<lparr>p_type = t, frequency = 0, timing = initialTiming, p_context = [], variance = 0\<rparr>"

definition initializePatterns :: "BehaviorPattern list" where
  "initializePatterns =
     [initialPattern ''login_pattern'', initialPattern ''data_access'',
      initialPattern ''network_communication'', initialPattern ''file_operations'',
      initialPattern ''process_execution'']"

definition initializeMetrics :: BehaviorMetrics where
  "initializeMetrics =
     \<lparr>mean = 0, median = Some 0, standardDeviation = 0, percentiles = [], outliers = []\<rparr>"

text \<open>\<^verbatim>\<open>createInitialBaseline\<close> puts the baseline into the map before it writes it to the
  database, so the entry is there also when the write throws. \<open>now\<close> is the value of
  \<^verbatim>\<open>new Date()\<close>.\<close>

definition createInitialBaseline ::
  "Date \<Rightarrow> string \<Rightarrow> string \<Rightarrow> SecurityEvent \<Rightarrow> BehavioralAnalytics \<Rightarrow> (error + unit) \<times> BehavioralAnalytics" where
  "createInitialBaseline now entityId' entityType' event s =
     (let baseline = \<lparr>entityId = entityId', entityType = entityType',
                       patterns = initializePatterns, metrics = initializeMetrics,
                       lastUpdated = now, confidence = 0.1\<rparr>;
          s1 = s\<lparr>baselines := (baselines s)(entityId' \<mapsto> baseline)\<rparr>
      in (storeBaseline baseline s1, s1))"

definition analyzeEntityBehavior ::
  "BehavioralConfig \<Rightarrow> Date \<Rightarrow> EntityInfo \<Rightarrow> SecurityEvent \<Rightarrow> BehavioralAnalytics
     \<Rightarrow> (error + EntityAnalysis) \<times> BehavioralAnalytics" where
  "analyzeEntityBehavior config now entity event s =
     (case baselines s (e_id entity) of
        None \<Rightarrow>
          (case createInitialBaseline now (e_id entity) (e_type entity) event s of
             (Inl err, s1) \<Rightarrow> (Inl err, s1)
           | (Inr _, s1) \<Rightarrow> (Inr \<lparr>ea_anomalies = [], ea_riskScore = 0, ea_confidence = 0\<rparr>, s1))
      | Some baseline \<Rightarrow>
          (case analyzePatterns config event (patterns baseline) ([], 0, 0, 0) of
             (anomalies, totalRiskScore, totalConfidence, analysisCount) \<Rightarrow>
               (Inr \<lparr>ea_anomalies = anomalies,
                     ea_riskScore = (if analysisCount > 0 then totalRiskScore / real analysisCount else 0),
                     ea_confidence = (if analysisCount > 0 then totalConfidence / real analysisCount else 0)\<rparr>,
                s)))"

subsection \<open>Scoring one event\<close>

fun analyzeEntities ::
  "BehavioralConfig \<Rightarrow> Date \<Rightarrow> SecurityEvent \<Rightarrow> (string \<times> EntityInfo) list \<Rightarrow> analysis_acc
     \<Rightarrow> BehavioralAnalytics \<Rightarrow> (error + analysis_acc) \<times> BehavioralAnalytics" where
  "analyzeEntities config now event [] acc s = (Inr acc, s)"
| "analyzeEntities config now event ((entityKey, entity) # rest)
       (anomalies, totalRiskScore, totalConfidence, analysisCount) s =
     (case analyzeEntityBehavior config now entity event s of
        (Inl err, s1) \<Rightarrow> (Inl err, s1)
      | (Inr entityAnalysis, s1) \<Rightarrow>
          if length (ea_anomalies entityAnalysis) > 0 then
            analyzeEntities config now event rest
              (anomalies @ ea_anomalies entityAnalysis,
               totalRiskScore + ea_riskScore entityAnalysis,
               totalConfidence + ea_confidence entityAnalysis,
               analysisCount + 1) s1
          else analyzeEntities config now event rest
                 (anomalies, totalRiskScore, totalConfidence, analysisCount) s1)"

text \<open>Assignment to a property of a plain object: an existing key keeps its place, a new
  key goes last.\<close>

fun obj_set :: "(string \<times> 'v) list \<Rightarrow> string \<Rightarrow> 'v \<Rightarrow> (string \<times> 'v) list" where
  "obj_set [] k v = [(k, v)]"
| "obj_set ((k', v') # kvs) k v = (if k' = k then (k, v) # kvs else (k', v') # obj_set kvs k v)"

type_synonym comparison_acc = "(string \<times> real) list \<times> string list \<times> nat \<times> nat"

fun comparePatterns ::
  "BehavioralConfig \<Rightarrow> SecurityEvent \<Rightarrow> BehaviorPattern list \<Rightarrow> comparison_acc \<Rightarrow> comparison_acc" where
  "comparePatterns config event [] acc = acc"
| "comparePatterns config event (pattern # rest) (patternDeviations, riskFactors, normalPatterns, anomalousPatterns) =
     (let currentValue = extractPatternValue event (p_type pattern);
          deviation = (if frequency pattern > 0
                       then \<bar>currentValue - frequency pattern\<bar> / frequency pattern else 0);
          patternDeviations1 = obj_set patternDeviations (p_type pattern) deviation
      in if deviation > anomalyThreshold config then
           comparePatterns config event rest
             (patternDeviations1, riskFactors @ [p_type pattern @ '' deviation''],
              normalPatterns, anomalousPatterns + 1)
         else comparePatterns config event rest
                (patternDeviations1, riskFactors, normalPatterns + 1, anomalousPatterns))"

fun compareEntities ::
  "BehavioralConfig \<Rightarrow> SecurityEvent \<Rightarrow> BehavioralAnalytics \<Rightarrow> (string \<times> EntityInfo) list
     \<Rightarrow> comparison_acc \<Rightarrow> comparison_acc" where
  "compareEntities config event s [] acc = acc"
| "compareEntities config event s ((entityKey, entity) # rest) acc =
     (case baselines s (e_id entity) of
        Some baseline \<Rightarrow>
          compareEntities config event s rest (comparePatterns config event (patterns baseline) acc)
      | None \<Rightarrow> compareEntities config event s rest acc)"

definition generateBaselineComparison ::
  "BehavioralConfig \<Rightarrow> SecurityEvent \<Rightarrow> BehaviorAnomaly list \<Rightarrow> BehavioralAnalytics \<Rightarrow> BaselineComparison" where
  "generateBaselineComparison config event anomalies s =
     (case compareEntities config event s (entityEntries event) ([], [], 0, 0) of
        (patternDeviations, riskFactors, normalPatterns, anomalousPatterns) \<Rightarrow>
          \<lparr>\<comment> \<open>unguarded division by the number of keys\<close>
           bc_overallDeviation = sum_list (map snd patternDeviations) / real (length patternDeviations),
           bc_patternDeviations = patternDeviations,
           bc_riskFactors = riskFactors,
           bc_normalPatterns = normalPatterns,
           bc_anomalousPatterns = anomalousPatterns\<rparr>)"

definition generateRecommendations_behavioral ::
  "BehaviorAnomaly list \<Rightarrow> BaselineComparison \<Rightarrow> string list" where
  "generateRecommendations_behavioral anomalies comparison =
     (let r1 = (if length anomalies > 0
                then [''Investigate '' @ show_nat (length anomalies) @ '' behavioral anomalies detected'']
                else []);
          r2 = (if bc_overallDeviation comparison > 0.5
                then r1 @ [''High overall behavioral deviation - consider user training'']
                else r1);
          r3 = (if length (bc_riskFactors comparison) > 3
                then r2 @ [''Multiple risk factors detected - comprehensive review recommended'']
                else r2);
          criticalAnomalies = filter (\<lambda>a. a_severity a > 0.8) anomalies
      in if length criticalAnomalies > 0
         then r3 @ [show_nat (length criticalAnomalies)
                      @ '' critical behavioral anomalies require immediate attention'']
         else r3)"

definition analyzeEvent ::
  "BehavioralConfig \<Rightarrow> Date \<Rightarrow> SecurityEvent \<Rightarrow> BehavioralAnalytics
     \<Rightarrow> (error + BehavioralResult) \<times> BehavioralAnalytics" where
  "analyzeEvent config now event s =
     (if \<not> ba_isInitialized s then (Inl NotInitialized, s)
      else
        (case analyzeEntities config now event (entityEntries event) ([], 0, 0, 0) s of
           (Inl err, s1) \<Rightarrow> (Inl err, s1)
         | (Inr (anomalies, totalRiskScore, totalConfidence, analysisCount), s1) \<Rightarrow>
             (let riskScore = (if analysisCount > 0 then totalRiskScore / real analysisCount else 0);
                  confidence' = (if analysisCount > 0 then totalConfidence / real analysisCount else 0);
                  baselineComparison = generateBaselineComparison config event anomalies s1;
                  recommendations = generateRecommendations_behavioral anomalies baselineComparison
              in (Inr \<lparr>br_anomalies = anomalies, br_riskScore = riskScore,
                        br_confidence = confidence', br_baselineComparison = baselineComparison,
                        br_recommendations = recommendations\<rparr>, s1))))"

subsection \<open>Updating a baseline\<close>

definition updateTimingPattern :: "TimingPattern \<Rightarrow> Date \<Rightarrow> TimingPattern" where
  "updateTimingPattern t timestamp =
     (let hour = getHours timestamp;
          day = getDay timestamp;
          isWeekend = (day = 0 \<or> day = 6);
          isBusinessHours = (hour \<ge> 9 \<and> hour \<le> 17);
          t1 = (if isBusinessHours \<and> \<not> isWeekend then t\<lparr>businessHours := businessHours t + 1\<rparr>
                else if \<not> isBusinessHours \<and> \<not> isWeekend then t\<lparr>afterHours := afterHours t + 1\<rparr>
                else if isWeekend then t\<lparr>weekends := weekends t + 1\<rparr>
                else t)
      in if hour \<notin> set (peakHours t1) then t1\<lparr>peakHours := peakHours t1 @ [hour]\<rparr> else t1)"

text \<open>The body of the loop of \<^verbatim>\<open>updateEntityBaseline\<close> on one pattern: the frequency is
  overwritten first, and the deviation that feeds the variance is taken from the new
  frequency.\<close>

definition updatePattern :: "BehavioralConfig \<Rightarrow> SecurityEvent \<Rightarrow> BehaviorPattern \<Rightarrow> BehaviorPattern" where
  "updatePattern config event pattern =
     (let currentValue = extractPatternValue event (p_type pattern);
          pattern1 = pattern\<lparr>frequency := (1 - learningRate config) * frequency pattern
                                           + learningRate config * currentValue\<rparr>;
          deviation = \<bar>currentValue - frequency pattern1\<bar>;
          pattern2 = pattern1\<lparr>variance := (1 - learningRate config) * variance pattern1
                                           + learningRate config * deviation\<rparr>
      in pattern2\<lparr>timing := updateTimingPattern (timing pattern2) (ev_timestamp event)\<rparr>)"

definition calculateStandardDeviation :: "real list \<Rightarrow> real" where
  "calculateStandardDeviation values =
     (let \<comment> \<open>unguarded divisions by the length\<close>
          m = sum_list values / real (length values);
          v = sum_list (map (\<lambda>val. (val - m) ^ 2) values) / real (length values)
      in sqrt v)"

text \<open>\<^verbatim>\<open>sortedValues[index] || 0\<close>: a read outside the array is \<^verbatim>\<open>undefined\<close> and becomes
  0; a stored 0 stays 0.\<close>

definition calculatePercentiles :: "real list \<Rightarrow> (nat \<times> real) list" where
  "calculatePercentiles sortedValues =
     map (\<lambda>p. let index = \<lfloor>(real p / 100) * (real (length sortedValues) - 1)\<rfloor>
                in (p, if 0 \<le> index \<and> index < int (length sortedValues)
                       then sortedValues ! nat index else 0))
         [25, 50, 75, 90, 95, 99]"

definition detectOutliers :: "real list \<Rightarrow> real list" where
  "detectOutliers values =
     (if values = [] then []
      else
        (let sorted = sort values;
             q1 = sorted ! nat \<lfloor>real (length sorted) * 0.25\<rfloor>;
             q3 = sorted ! nat \<lfloor>real (length sorted) * 0.75\<rfloor>;
             iqr = q3 - q1;
             lowerBound = q1 - 1.5 * iqr;
             upperBound = q3 + 1.5 * iqr
         in filter (\<lambda>val. val < lowerBound \<or> val > upperBound) values))"

definition calculateMetrics :: "BehaviorPattern list \<Rightarrow> BehaviorMetrics" where
  "calculateMetrics ps =
     (let frequencies = map frequency ps;
          sortedFrequencies = sort frequencies
      in \<lparr>\<comment> \<open>unguarded division by the length\<close>
          mean = sum_list frequencies / real (length frequencies),
          median = (if sortedFrequencies = [] then None
                    else Some (sortedFrequencies ! (length sortedFrequencies div 2))),
          standardDeviation = calculateStandardDeviation frequencies,
          percentiles = calculatePercentiles sortedFrequencies,
          outliers = detectOutliers frequencies\<rparr>)"

text \<open>\<^verbatim>\<open>updateEntityBaseline\<close> mutates the baseline object that the map holds, so the new
  values are in the map whether or not the write to the database throws.\<close>

definition updatedBaseline :: "BehavioralConfig \<Rightarrow> Date \<Rightarrow> BehavioralBaseline \<Rightarrow> SecurityEvent \<Rightarrow> BehavioralBaseline" where
  "updatedBaseline config now baseline event =
     (let patterns1 = map (updatePattern config event) (patterns baseline)
      in baseline\<lparr>patterns := patterns1,
                   metrics := calculateMetrics patterns1,
                   lastUpdated := now,
                   confidence := min 1 (confidence baseline + 0.01)\<rparr>)"

definition updateEntityBaseline ::
  "BehavioralConfig \<Rightarrow> Date \<Rightarrow> BehavioralBaseline \<Rightarrow> SecurityEvent \<Rightarrow> BehavioralAnalytics
     \<Rightarrow> (error + unit) \<times> BehavioralAnalytics" where
  "updateEntityBaseline config now baseline event s =
     (let baseline1 = updatedBaseline config now baseline event;
          s1 = s\<lparr>baselines := (baselines s)(entityId baseline1 \<mapsto> baseline1)\<rparr>
      in (storeBaseline baseline1 s1, s1))"

fun updateBaseline_loop ::
  "BehavioralConfig \<Rightarrow> Date \<Rightarrow> SecurityEvent \<Rightarrow> (string \<times> EntityInfo) list \<Rightarrow> BehavioralAnalytics
     \<Rightarrow> (error + unit) \<times> BehavioralAnalytics" where
  "updateBaseline_loop config now event [] s = (Inr (), s)"
| "updateBaseline_loop config now event ((entityKey, entity) # rest) s =
     (case (case baselines s (e_id entity) of
              None \<Rightarrow> createInitialBaseline now (e_id entity) entityKey event s
            | Some _ \<Rightarrow> (Inr (), s)) of
        (Inl err, s1) \<Rightarrow> (Inl err, s1)
      | (Inr _, s1) \<Rightarrow>
          (case baselines s1 (e_id entity) of
             None \<Rightarrow> updateBaseline_loop config now event rest s1
           | Some baseline \<Rightarrow>
               (case updateEntityBaseline config now baseline event s1 of
                  (Inl err, s2) \<Rightarrow> (Inl err, s2)
                | (Inr _, s2) \<Rightarrow> updateBaseline_loop config now event rest s2)))"

text \<open>\<^verbatim>\<open>updateBaseline\<close> catches what its loop throws and logs it: the loop stops there, and
  the caller sees a normal return.\<close>

definition updateBaseline :: "BehavioralConfig \<Rightarrow> Date \<Rightarrow> SecurityEvent \<Rightarrow> BehavioralAnalytics \<Rightarrow> BehavioralAnalytics" where
  "updateBaseline config now event s = snd (updateBaseline_loop config now event (entityEntries event) s)"

subsection \<open>Analyst feedback on a baseline\<close>

record Feedback =
  fb_id :: string
  fb_entityId :: "string option"
  fb_ruleId :: "string option"
  isFalsePositive :: bool

text \<open>Truthiness of an optional string property: absent and empty are both false.\<close>

definition truthy :: "string option \<Rightarrow> bool" where
  "truthy v = (case v of None \<Rightarrow> False | Some x \<Rightarrow> x \<noteq> [])"

definition processFeedback_behavioral :: "Feedback \<Rightarrow> BehavioralAnalytics \<Rightarrow> BehavioralAnalytics" where
  "processFeedback_behavioral feedback s =
     (if truthy (fb_entityId feedback) \<and> isFalsePositive feedback then
        (case baselines s (the (fb_entityId feedback)) of
           Some baseline \<Rightarrow>
             s\<lparr>baselines := (baselines s)(the (fb_entityId feedback) \<mapsto>
                  baseline\<lparr>confidence := max 0.1 (confidence baseline - 0.05)\<rparr>)\<rparr>
         | None \<Rightarrow> s)
      else s)"

section \<open>Graph correlation engine\<close>

record GraphConfig =
  correlationWindow :: real
  minCorrelationStrength :: real
  maxGraphSize :: nat

record GraphNode =
  gn_id :: string
  gn_labels :: "string list"
  gn_name :: string
  gn_type :: string
  gn_lastSeen :: Date
  gn_source :: string

record EntityCorrelation =
  sourceEntity :: string
  targetEntity :: string
  relationship :: string
  strength :: real
  c_confidence :: real
  evidence :: "string list"
  c_lastSeen :: Date

record ThreatChain =
  tc_entities :: "string list"
  tc_relationships :: "EntityCorrelation list"
  tc_riskScore :: real
  tc_pattern :: string
  tc_description :: string

record CorrelationResult =
  cr_correlations :: "EntityCorrelation list"
  cr_networkStrength :: real
  cr_threatChains :: "ThreatChain list"
  cr_riskScore :: real
  cr_recommendations :: "string list"

text \<open>The graph database is outside the repository. What the engine sees of it is the
  outcome of the one query of \<^verbatim>\<open>findEntityCorrelations\<close>: for an entity id and a cut-off
  time, the rows of the relationships that touch the entity, or a failure.\<close>

record QueryRecord =
  q_targetId :: string
  q_relationship :: string
  q_strength :: real
  q_confidence :: real
  q_evidence :: "string list option"
  q_lastSeen :: Date

type_synonym neo4j = "string \<Rightarrow> real \<Rightarrow> error + QueryRecord list"

record GraphCorrelationEngine =
  ge_isInitialized :: bool
  ge_driver :: bool

definition extractEntities :: "SecurityEvent \<Rightarrow> GraphNode list" where
  "extractEntities event =
     map (\<lambda>(entityType, entity).
            \<lparr>gn_id = e_id entity, gn_labels = [entityType, ''Entity''], gn_name = e_name entity,
             gn_type = e_type entity, gn_lastSeen = ev_timestamp event, gn_source = ev_source event\<rparr>)
         (entityEntries event)"

definition findEntityCorrelations ::
  "GraphConfig \<Rightarrow> neo4j \<Rightarrow> GraphCorrelationEngine \<Rightarrow> GraphNode \<Rightarrow> Date \<Rightarrow> EntityCorrelation list" where
  "findEntityCorrelations config db engine entity timestamp =
     (if \<not> ge_driver engine then []
      else
        (let cutoffTime = real_of_int (getTime timestamp) - correlationWindow config * 60 * 60 * 1000
         in case db (gn_id entity) cutoffTime of
              Inl err \<Rightarrow> []
            | Inr records \<Rightarrow>
                map (\<lambda>r. \<lparr>sourceEntity = gn_id entity, targetEntity = q_targetId r,
                          relationship = q_relationship r, strength = q_strength r,
                          c_confidence = q_confidence r,
                          evidence = (case q_evidence r of None \<Rightarrow> [] | Some ev \<Rightarrow> ev),
                          c_lastSeen = q_lastSeen r\<rparr>)
                    (filter (\<lambda>r. q_strength r \<ge> minCorrelationStrength config) records)))"

subsection \<open>Connected components\<close>

text \<open>\<^verbatim>\<open>Map<string, Set<string>>\<close>: keys and members in insertion order.\<close>

type_synonym adjacency = "(string \<times> string list) list"

definition graph_has :: "adjacency \<Rightarrow> string \<Rightarrow> bool" where
  "graph_has graph k = (map_of graph k \<noteq> None)"

text \<open>\<^verbatim>\<open>if (!graph.has(k)) graph.set(k, new Set())\<close>\<close>

definition ensureKey :: "adjacency \<Rightarrow> string \<Rightarrow> adjacency" where
  "ensureKey graph k = (if \<not> graph_has graph k then graph @ [(k, [])] else graph)"

text \<open>\<^verbatim>\<open>Set.add\<close>\<close>

definition set_add :: "string list \<Rightarrow> string \<Rightarrow> string list" where
  "set_add xs x = (if x \<in> set xs then xs else xs @ [x])"

text \<open>\<^verbatim>\<open>graph.get(k)!.add(x)\<close>; the key is there, the two lines before put it.\<close>

fun addNeighbor :: "adjacency \<Rightarrow> string \<Rightarrow> string \<Rightarrow> adjacency" where
  "addNeighbor [] k x = []"
| "addNeighbor ((k', ns) # graph) k x =
     (if k' = k then (k', set_add ns x) # graph else (k', ns) # addNeighbor graph k x)"

definition addCorrelation :: "adjacency \<Rightarrow> EntityCorrelation \<Rightarrow> adjacency" where
  "addCorrelation graph corr =
     (let g1 = ensureKey graph (sourceEntity corr);
          g2 = ensureKey g1 (targetEntity corr);
          g3 = addNeighbor g2 (sourceEntity corr) (targetEntity corr)
      in addNeighbor g3 (targetEntity corr) (sourceEntity corr))"

fun buildAdjacency :: "EntityCorrelation list \<Rightarrow> adjacency \<Rightarrow> adjacency" where
  "buildAdjacency [] graph = graph"
| "buildAdjacency (corr # rest) graph = buildAdjacency rest (addCorrelation graph corr)"

text \<open>\<^verbatim>\<open>graph.get(entity) || new Set()\<close>\<close>

fun orEmpty :: "string list option \<Rightarrow> string list" where
  "orEmpty None = []"
| "orEmpty (Some ns) = ns"

definition neighborsOf :: "adjacency \<Rightarrow> string \<Rightarrow> string list" where
  "neighborsOf graph entity = orEmpty (map_of graph entity)"

definition graphNodes :: "adjacency \<Rightarrow> string set" where
  "graphNodes graph = fst ` set graph \<union> (\<Union>kv \<in> set graph. set (snd kv))"

text \<open>The order in which the calls of the traversal decrease: first the number of nodes
  that are still unvisited, then a call of \<open>dfs\<close> above the loop it starts, then the
  length of the rest of the loop.\<close>

definition dfs_order ::
  "((string \<times> adjacency \<times> string set \<times> string list) + (string list \<times> adjacency \<times> string set \<times> string list)) rel" where
  "dfs_order = measures
      [\<lambda>x. case x of Inl (e, g, vis, cmp) \<Rightarrow> card (graphNodes g - vis - {e})
                    | Inr (ns, g, vis, cmp) \<Rightarrow> card ((graphNodes g \<union> set ns) - vis),
       \<lambda>x. case x of Inl _ \<Rightarrow> 1 | Inr _ \<Rightarrow> 0,
       \<lambda>x. case x of Inl _ \<Rightarrow> 0 | Inr (ns, _) \<Rightarrow> length ns]"

text \<open>\<^verbatim>\<open>dfs\<close> and the loop over the neighbours inside it. The visited set and the
  component are the two objects the recursion mutates; the state that a recursive call
  leaves is the one the rest of the loop goes on with.\<close>

function dfs :: "string \<Rightarrow> adjacency \<Rightarrow> string set \<times> string list \<Rightarrow> string set \<times> string list"
  and dfs_neighbors :: "string list \<Rightarrow> adjacency \<Rightarrow> string set \<times> string list \<Rightarrow> string set \<times> string list"
where
  "dfs entity graph (visited, component) =
     dfs_neighbors (neighborsOf graph entity) graph (insert entity visited, component @ [entity])"
| "dfs_neighbors [] graph st = st"
| "dfs_neighbors (neighbor # rest) graph (visited, component) =
     (if neighbor \<notin> visited
      then dfs_neighbors rest graph (dfs neighbor graph (visited, component))
      else dfs_neighbors rest graph (visited, component))"
  by pat_completeness auto
termination
proof -
  have mono:
    "(dfs_dfs_neighbors_dom (Inl (entity, graph, st)) \<longrightarrow> fst st \<subseteq> fst (dfs entity graph st))
     \<and> (dfs_dfs_neighbors_dom (Inr (ns, graph, st)) \<longrightarrow> fst st \<subseteq> fst (dfs_neighbors ns graph st))"
    for entity graph st ns
  proof -
    have 1: "dfs_dfs_neighbors_dom (Inl (entity, graph, st)) \<Longrightarrow> fst st \<subseteq> fst (dfs entity graph st)"
      and 2: "dfs_dfs_neighbors_dom (Inr (ns, graph, st)) \<Longrightarrow> fst st \<subseteq> fst (dfs_neighbors ns graph st)"
    proof (induction entity graph st and ns graph st rule: dfs_dfs_neighbors.pinduct)
      case (1 entity graph visited component)
      then show ?case by (auto simp add: dfs.psimps)
    next
      case (2 graph st)
      then show ?case by (simp add: dfs_neighbors.psimps)
    next
      case (3 neighbor rest graph visited component)
      then show ?case
        by (cases "dfs neighbor graph (visited, component)") (auto simp add: dfs_neighbors.psimps)
    qed
    then show ?thesis by blast
  qed
  have fin: "finite (graphNodes g)" for g
    by (simp add: graphNodes_def)
  have nb: "set (neighborsOf g e) \<subseteq> graphNodes g" for g e
  proof (cases "map_of g e")
    case None
    then show ?thesis by (simp add: neighborsOf_def)
  next
    case (Some ns)
    then have "(e, ns) \<in> set g" by (rule map_of_SomeD)
    then show ?thesis using Some by (force simp add: neighborsOf_def graphNodes_def)
  qed
  show ?thesis
  proof (relation "dfs_order")
    show "wf dfs_order"
      by (simp add: dfs_order_def)
  next
    fix entity :: string and graph :: adjacency and visited :: "string set" and component :: "string list"
    have "(graphNodes graph \<union> set (neighborsOf graph entity)) - insert entity visited
          = graphNodes graph - visited - {entity}"
      using nb[of graph entity] by auto
    then show "(Inr (neighborsOf graph entity, graph, insert entity visited, component @ [entity]),
                Inl (entity, graph, visited, component)) \<in> dfs_order"
      by (simp add: dfs_order_def)
  next
    fix neighbor :: string and rest :: "string list" and graph :: adjacency
      and visited :: "string set" and component :: "string list"
    assume nv: "neighbor \<notin> visited"
    have "graphNodes graph - visited - {neighbor} \<subset> (graphNodes graph \<union> set (neighbor # rest)) - visited"
      using nv by auto
    then have "card (graphNodes graph - visited - {neighbor})
               < card ((graphNodes graph \<union> set (neighbor # rest)) - visited)"
      by (intro psubset_card_mono) (simp_all add: fin)
    then show "(Inl (neighbor, graph, visited, component),
                Inr (neighbor # rest, graph, visited, component)) \<in> dfs_order"
      by (simp add: dfs_order_def)
  next
    fix neighbor :: string and rest :: "string list" and graph :: adjacency
      and visited :: "string set" and component :: "string list"
    assume nv: "neighbor \<notin> visited"
      and dom: "dfs_dfs_neighbors_dom (Inl (neighbor, graph, visited, component))"
    obtain vis' cmp' where r: "dfs neighbor graph (visited, component) = (vis', cmp')"
      by (cases "dfs neighbor graph (visited, component)")
    have sub: "visited \<subseteq> vis'"
      using mono[of neighbor graph "(visited, component)"] dom r by simp
    have "(graphNodes graph \<union> set rest) - vis' \<subseteq> (graphNodes graph \<union> set (neighbor # rest)) - visited"
      using sub by auto
    then have "card ((graphNodes graph \<union> set rest) - vis')
               \<le> card ((graphNodes graph \<union> set (neighbor # rest)) - visited)"
      by (intro card_mono) (simp_all add: fin)
    then show "(Inr (rest, graph, dfs neighbor graph (visited, component)),
                Inr (neighbor # rest, graph, visited, component)) \<in> dfs_order"
      by (auto simp add: r dfs_order_def)
  next
    fix neighbor :: string and rest :: "string list" and graph :: adjacency
      and visited :: "string set" and component :: "string list"
    have "(graphNodes graph \<union> set rest) - visited \<subseteq> (graphNodes graph \<union> set (neighbor # rest)) - visited"
      by auto
    then have "card ((graphNodes graph \<union> set rest) - visited)
               \<le> card ((graphNodes graph \<union> set (neighbor # rest)) - visited)"
      by (intro card_mono) (simp_all add: fin)
    then show "(Inr (rest, graph, visited, component),
                Inr (neighbor # rest, graph, visited, component)) \<in> dfs_order"
      by (auto simp add: dfs_order_def)
  qed
qed

text \<open>The loop of \<^verbatim>\<open>findConnectedComponents\<close> over \<^verbatim>\<open>graph.keys()\<close>.\<close>

fun componentsLoop ::
  "adjacency \<Rightarrow> string list \<Rightarrow> string set \<times> string list list \<Rightarrow> string set \<times> string list list" where
  "componentsLoop graph [] st = st"
| "componentsLoop graph (entity # rest) (visited, components) =
     (if entity \<notin> visited then
        (case dfs entity graph (visited, []) of
           (visited1, component) \<Rightarrow> componentsLoop graph rest (visited1, components @ [component]))
      else componentsLoop graph rest (visited, components))"

definition findConnectedComponents :: "EntityCorrelation list \<Rightarrow> string list list" where
  "findConnectedComponents correlations =
     (let graph = buildAdjacency correlations []
      in snd (componentsLoop graph (map fst graph) ({}, [])))"

subsection \<open>Threat chains\<close>

definition calculateChainRiskScore :: "string list \<Rightarrow> EntityCorrelation list \<Rightarrow> real" where
  "calculateChainRiskScore entities correlations =
     (if length correlations = 0 then 0
      else
        (let avgStrength = sum_list (map strength correlations) / real (length correlations);
             avgConfidence = sum_list (map c_confidence correlations) / real (length correlations);
             chainLength = length entities;
             lengthFactor = min 1 (real chainLength / 10);
             strengthFactor = avgStrength;
             confidenceFactor = avgConfidence
         in lengthFactor * 0.4 + strengthFactor * 0.4 + confidenceFactor * 0.2))"

text \<open>\<^verbatim>\<open>[...new Set(relationshipTypes)]\<close>: the distinct values, each where it first occurs.\<close>

definition uniqueValues :: "string list \<Rightarrow> string list" where
  "uniqueValues xs = foldl set_add [] xs"

definition identifyThreatPattern :: "string list \<Rightarrow> EntityCorrelation list \<Rightarrow> string" where
  "identifyThreatPattern entities correlations =
     (let relationshipTypes = map relationship correlations;
          uniqueTypes = uniqueValues relationshipTypes
      in if ''communicates_with'' \<in> set uniqueTypes \<and> ''accesses'' \<in> set uniqueTypes then
           ''lateral_movement''
         else if ''executes'' \<in> set uniqueTypes \<and> ''accesses'' \<in> set uniqueTypes then
           ''privilege_escalation''
         else if ''communicates_with'' \<in> set uniqueTypes \<and> length uniqueTypes > 2 then
           ''command_and_control''
         else if ''accesses'' \<in> set uniqueTypes \<and> length uniqueTypes > 3 then
           ''data_exfiltration''
         else ''suspicious_activity'')"

text \<open>\<^verbatim>\<open>Number.prototype.toFixed(2)\<close>\<close>

definition toFixed2 :: "real \<Rightarrow> string" where
  "toFixed2 x =
     (let n = nat \<lfloor>\<bar>x\<bar> * 100 + 1 / 2\<rfloor>;
          digits = show_nat (n div 100) @ ''.''
                     @ [char_of (48 + (n mod 100) div 10), char_of (48 + (n mod 100) mod 10)]
      in if x < 0 then CHR ''-'' # digits else digits)"

definition generateThreatDescription :: "string list \<Rightarrow> EntityCorrelation list \<Rightarrow> string \<Rightarrow> string" where
  "generateThreatDescription entities correlations pattern =
     (let entityCount = length entities;
          correlationCount = length correlations;
          \<comment> \<open>unguarded division by the length\<close>
          avgStrength = sum_list (map strength correlations) / real (length correlations)
      in ''Threat chain detected: '' @ pattern @ '' pattern involving '' @ show_nat entityCount
           @ '' entities with '' @ show_nat correlationCount @ '' relationships (avg strength: ''
           @ toFixed2 avgStrength @ '')'')"

definition analyzeThreatChain :: "string list \<Rightarrow> EntityCorrelation list \<Rightarrow> ThreatChain" where
  "analyzeThreatChain entities correlations =
     (let chainCorrelations =
            filter (\<lambda>corr. sourceEntity corr \<in> set entities \<and> targetEntity corr \<in> set entities)
                   correlations;
          riskScore = calculateChainRiskScore entities chainCorrelations;
          pattern = identifyThreatPattern entities chainCorrelations;
          description = generateThreatDescription entities chainCorrelations pattern
      in \<lparr>tc_entities = entities, tc_relationships = chainCorrelations, tc_riskScore = riskScore,
          tc_pattern = pattern, tc_description = description\<rparr>)"

text \<open>The loop of \<^verbatim>\<open>findThreatChains\<close> over the components.\<close>

fun chainsLoop :: "EntityCorrelation list \<Rightarrow> string list list \<Rightarrow> ThreatChain list \<Rightarrow> ThreatChain list" where
  "chainsLoop correlations [] threatChains = threatChains"
| "chainsLoop correlations (component # rest) threatChains =
     (if length component \<ge> 3 then
        (let chain = analyzeThreatChain component correlations
         in if tc_riskScore chain > 0.5
            then chainsLoop correlations rest (threatChains @ [chain])
            else chainsLoop correlations rest threatChains)
      else chainsLoop correlations rest threatChains)"

definition findThreatChains :: "GraphNode list \<Rightarrow> EntityCorrelation list \<Rightarrow> ThreatChain list" where
  "findThreatChains entities correlations =
     (let components = findConnectedComponents correlations
      in chainsLoop correlations components [])"

subsection \<open>Correlating one event\<close>

definition calculateRiskScore :: "EntityCorrelation list \<Rightarrow> ThreatChain list \<Rightarrow> real" where
  "calculateRiskScore correlations threatChains =
     (if length correlations = 0 \<and> length threatChains = 0 then 0
      else
        (let correlationRisk =
               (if length correlations > 0
                then sum_list (map (\<lambda>corr. strength corr * c_confidence corr) correlations)
                       / real (length correlations)
                else 0);
             chainRisk =
               (if length threatChains > 0
                then sum_list (map tc_riskScore threatChains) / real (length threatChains)
                else 0)
         in min 1 (correlationRisk * 0.6 + chainRisk * 0.4)))"

definition generateRecommendations_graph :: "EntityCorrelation list \<Rightarrow> ThreatChain list \<Rightarrow> string list" where
  "generateRecommendations_graph correlations threatChains =
     (let r1 = (if length correlations > 10
                then [''High correlation density detected - investigate for coordinated attack'']
                else []);
          criticalChains = filter (\<lambda>chain. tc_riskScore chain > 0.8) threatChains;
          r2 = (if length threatChains > 0 \<and> length criticalChains > 0
                then r1 @ [show_nat (length criticalChains)
                             @ '' critical threat chains require immediate investigation'']
                else r1);
          strongCorrelations = filter (\<lambda>corr. strength corr > 0.8) correlations;
          r3 = (if length strongCorrelations > 5
                then r2 @ [''Multiple strong correlations detected - consider implementing additional monitoring'']
                else r2);
          lateralMovement = filter (\<lambda>chain. tc_pattern chain = ''lateral_movement'') threatChains
      in if length lateralMovement > 0
         then r3 @ [''Lateral movement patterns detected - review network segmentation'']
         else r3)"

text \<open>The loop of \<^verbatim>\<open>correlateEvent\<close> over the entities: the correlations found so far,
  \<^verbatim>\<open>totalStrength\<close> and \<^verbatim>\<open>correlationCount\<close>.\<close>

fun correlateEntities ::
  "GraphConfig \<Rightarrow> neo4j \<Rightarrow> GraphCorrelationEngine \<Rightarrow> Date \<Rightarrow> GraphNode list
     \<Rightarrow> EntityCorrelation list \<times> real \<times> nat \<Rightarrow> EntityCorrelation list \<times> real \<times> nat" where
  "correlateEntities config db engine timestamp [] acc = acc"
| "correlateEntities config db engine timestamp (entity # rest) (correlations, totalStrength, correlationCount) =
     (let entityCorrelations = findEntityCorrelations config db engine entity timestamp
      in if length entityCorrelations > 0 then
           correlateEntities config db engine timestamp rest
             (correlations @ entityCorrelations,
              totalStrength + sum_list (map strength entityCorrelations),
              correlationCount + length entityCorrelations)
         else correlateEntities config db engine timestamp rest
                (correlations @ entityCorrelations, totalStrength, correlationCount))"

text \<open>The class declares \<^verbatim>\<open>updateGraph\<close> twice. A call reaches the later declaration, the
  public one, which only logs; so the call at the end of \<^verbatim>\<open>correlateEvent\<close> writes
  nothing, and the engine's own state does not change.\<close>

definition correlateEvent ::
  "GraphConfig \<Rightarrow> neo4j \<Rightarrow> GraphCorrelationEngine \<Rightarrow> SecurityEvent \<Rightarrow> error + CorrelationResult" where
  "correlateEvent config db engine event =
     (if \<not> ge_isInitialized engine then Inl NotInitialized
      else
        (let entities = extractEntities event
         in case correlateEntities config db engine (ev_timestamp event) entities ([], 0, 0) of
              (correlations, totalStrength, correlationCount) \<Rightarrow>
                (let networkStrength =
                       (if correlationCount > 0 then totalStrength / real correlationCount else 0);
                     threatChains = findThreatChains entities correlations;
                     riskScore = calculateRiskScore correlations threatChains;
                     recommendations = generateRecommendations_graph correlations threatChains
                 in Inr \<lparr>cr_correlations = correlations, cr_networkStrength = networkStrength,
                         cr_threatChains = threatChains, cr_riskScore = riskScore,
                         cr_recommendations = recommendations\<rparr>)))"

section \<open>Rule oracle\<close>

text \<open>The language model is outside the repository. What \<^verbatim>\<open>LLMService\<close> sees of it is the
  outcome of each completion request: the request fails (an error of the client, a
  timeout that rejects the promise), or it returns a text that \<^verbatim>\<open>parseJSONResponse\<close>
  rejects, or a text that parses. Of a parsed response the record keeps what the two
  callers read: the truthiness of \<^verbatim>\<open>matches\<close>, the properties \<^verbatim>\<open>confidence\<close> and
  \<^verbatim>\<open>reason\<close> when present, and the length when the parsed value is an array. The oracle
  gives the outcome of the \<open>n\<close>-th request of the service; the prompt that
  \<^verbatim>\<open>buildRuleEvaluationPrompt\<close> renders is not modelled.\<close>

record LLMJson =
  j_matches :: bool
  j_confidence :: "real option"
  j_reason :: "string option"
  j_arrayLength :: "nat option"

datatype completion = CompletionFailed | ParseFailed | Parsed LLMJson

type_synonym llm = "nat \<Rightarrow> completion"

record LLMService =
  llm_isInitialized :: bool
  llm_client :: bool
  llm_requests :: nat

record RuleEvaluationResult =
  matches :: bool
  re_confidence :: real
  reason :: string

definition evaluationFailed :: RuleEvaluationResult where
  "evaluationFailed = \<lparr>matches = False, re_confidence = 0, reason = ''Evaluation failed due to error''\<rparr>"

text \<open>\<^verbatim>\<open>LLMService.evaluateRule\<close>: the check of the flag is outside the \<^verbatim>\<open>try\<close>; a missing
  client, a failed request and a rejected text are caught inside it.\<close>

definition LLMService_evaluateRule ::
  "llm \<Rightarrow> LLMService \<Rightarrow> (error + RuleEvaluationResult) \<times> LLMService" where
  "LLMService_evaluateRule oracle s =
     (if \<not> llm_isInitialized s then (Inl NotInitialized, s)
      else if \<not> llm_client s then (Inr evaluationFailed, s)
      else
        (let s1 = s\<lparr>llm_requests := llm_requests s + 1\<rparr>
         in case oracle (llm_requests s) of
              CompletionFailed \<Rightarrow> (Inr evaluationFailed, s1)
            | ParseFailed \<Rightarrow> (Inr evaluationFailed, s1)
            | Parsed result \<Rightarrow>
                (Inr \<lparr>matches = j_matches result,
                      re_confidence = max 0 (min 1 (case j_confidence result of None \<Rightarrow> 0 | Some c \<Rightarrow> c)),
                      reason = (case j_reason result of
                                  None \<Rightarrow> ''No reason provided''
                                | Some r \<Rightarrow> if r = [] then ''No reason provided'' else r)\<rparr>,
                 s1)))"

text \<open>\<^verbatim>\<open>LLMService.generateRecommendations\<close>, by the number of recommendations it returns.\<close>

definition LLMService_generateRecommendations :: "llm \<Rightarrow> LLMService \<Rightarrow> (error + nat) \<times> LLMService" where
  "LLMService_generateRecommendations oracle s =
     (if \<not> llm_isInitialized s then (Inl NotInitialized, s)
      else if \<not> llm_client s then (Inr 0, s)
      else
        (let s1 = s\<lparr>llm_requests := llm_requests s + 1\<rparr>
         in case oracle (llm_requests s) of
              CompletionFailed \<Rightarrow> (Inr 0, s1)
            | ParseFailed \<Rightarrow> (Inr 0, s1)
            | Parsed result \<Rightarrow>
                (Inr (case j_arrayLength result of None \<Rightarrow> 1 | Some n \<Rightarrow> n), s1)))"

section \<open>Orchestrator\<close>

record RulePerformance =
  totalMatches :: nat
  truePositives :: nat
  falsePositives :: nat
  falseNegatives :: nat
  accuracy :: real
  precision :: real
  recall :: real
  f1Score :: real
  perf_lastUpdated :: Date

record DetectionRule =
  r_id :: string
  r_name :: string
  mitreTechniques :: "string list"
  performance :: RulePerformance

record Enrichment =
  threatMatches :: nat
  attackPatterns :: nat
  en_recommendations :: "string list"

record RuleContext =
  ctx_behavioral :: BehavioralResult
  ctx_correlation :: CorrelationResult
  ctx_enrichment :: Enrichment

record RuleResults =
  rr_matchedRules :: "DetectionRule list"
  rr_needsRecommendation :: bool
  rr_falsePositiveRisk :: real

text \<open>The calls that the pipeline makes on its collaborators, each with the id of the
  event, in the order in which it makes them.\<close>

datatype call =
    AnalyzeEvent string
  | CorrelateEvent string
  | EnrichEvent string
  | EvaluateRules string
  | GenerateRecommendations string
  | UpdateBaseline string
  | UpdateGraph string
  | UpdateWithEvent string

record DetectionAgent =
  behavioralAnalytics :: BehavioralAnalytics
  graphCorrelation :: GraphCorrelationEngine
  llmService :: LLMService
  kb_isInitialized :: bool
  activeRules :: "(string \<times> DetectionRule) list"
  processingQueue :: "SecurityEvent list"
  isProcessing :: bool
  eventsProcessed :: nat
  recommendationsCreated :: nat
  falsePositivesReduced :: nat
  calls :: "call list"

text \<open>What the agent is configured with and what its surroundings answer: the two
  configurations, the value of \<^verbatim>\<open>new Date()\<close>, the graph database, the language model, and
  the outcome of the lookups of \<^verbatim>\<open>KnowledgeBaseService.enrichEvent\<close>.\<close>

record Env =
  behavioral_config :: BehavioralConfig
  graph_config :: GraphConfig
  clock :: Date
  graph_db :: neo4j
  llm_oracle :: llm
  kb_lookup :: "SecurityEvent \<Rightarrow> error + Enrichment"

definition logCall :: "call \<Rightarrow> DetectionAgent \<Rightarrow> DetectionAgent" where
  "logCall c s = s\<lparr>calls := calls s @ [c]\<rparr>"

subsection \<open>Rule evaluation\<close>

text \<open>\<^verbatim>\<open>String.prototype.toLowerCase\<close>. A character of a string stands for the code unit
  of its number, so the strings are those over the code units below 256. Among these
  the conversion moves the letters A to Z and the letters from U+00C0 to U+00DE, the
  multiplication sign U+00D7 apart, 32 places up, and leaves every other one.\<close>

definition toLowerCase :: "string \<Rightarrow> string" where
  "toLowerCase str =
     map (\<lambda>c. if (65 \<le> (of_char c :: nat) \<and> (of_char c :: nat) \<le> 90)
                  \<or> (192 \<le> (of_char c :: nat) \<and> (of_char c :: nat) \<le> 222 \<and> (of_char c :: nat) \<noteq> 215)
               then char_of ((of_char c :: nat) + 32) else c) str"

text \<open>\<^verbatim>\<open>String.prototype.includes\<close>\<close>

fun String_includes :: "string \<Rightarrow> string \<Rightarrow> bool" where
  "String_includes [] search = (search = [])"
| "String_includes (c # cs) search = (prefix search (c # cs) \<or> String_includes cs search)"

text \<open>\<^verbatim>\<open>rule.metadata.mitreTechniques[0]?.toLowerCase() || ''\<close>: no first technique, or an
  empty one, gives the empty string.\<close>

definition hasSimilarRule :: "DetectionRule \<Rightarrow> SecurityEvent \<Rightarrow> bool" where
  "hasSimilarRule rule event =
     (let eventType' = toLowerCase (eventType event);
          ruleTechnique = (case mitreTechniques rule of
                             [] \<Rightarrow> []
                           | t # _ \<Rightarrow> if toLowerCase t = [] then [] else toLowerCase t)
      in String_includes eventType' ruleTechnique \<or> String_includes ruleTechnique eventType')"

text \<open>\<^verbatim>\<open>DetectionAgent.evaluateRule\<close>: whatever the service throws becomes the non-match.\<close>

definition evaluateRule ::
  "Env \<Rightarrow> DetectionRule \<Rightarrow> SecurityEvent \<Rightarrow> RuleContext \<Rightarrow> LLMService
     \<Rightarrow> RuleEvaluationResult \<times> LLMService" where
  "evaluateRule env rule event ctx l =
     (case LLMService_evaluateRule (llm_oracle env) l of
        (Inl err, l1) \<Rightarrow> (\<lparr>matches = False, re_confidence = 0, reason = ''Evaluation error''\<rparr>, l1)
      | (Inr llmResult, l1) \<Rightarrow>
          (\<lparr>matches = matches llmResult, re_confidence = re_confidence llmResult,
            reason = reason llmResult\<rparr>, l1))"

type_synonym rules_acc = "DetectionRule list \<times> bool \<times> real"

text \<open>The body of the loop of \<^verbatim>\<open>evaluateRules\<close> on one rule.\<close>

definition evaluateRules_step ::
  "Env \<Rightarrow> SecurityEvent \<Rightarrow> RuleContext \<Rightarrow> DetectionRule \<Rightarrow> rules_acc \<times> LLMService
     \<Rightarrow> rules_acc \<times> LLMService" where
  "evaluateRules_step env event ctx rule st =
     (case st of ((matchedRules, needsRecommendation, falsePositiveRisk), l) \<Rightarrow>
        (case evaluateRule env rule event ctx l of
           (matchResult, l1) \<Rightarrow>
             if matches matchResult then
               (let matchedRules1 = matchedRules @ [rule];
                    falsePositiveRisk1 =
                      (if re_confidence matchResult < 0.7
                       then falsePositiveRisk + (1 - re_confidence matchResult) * 0.3
                       else falsePositiveRisk);
                    needsRecommendation1 =
                      (if re_confidence matchResult > 0.8 \<and> \<not> hasSimilarRule rule event
                       then True else needsRecommendation)
                in ((matchedRules1, needsRecommendation1, falsePositiveRisk1), l1))
             else ((matchedRules, needsRecommendation, falsePositiveRisk), l1)))"

fun evaluateRules_loop ::
  "Env \<Rightarrow> SecurityEvent \<Rightarrow> RuleContext \<Rightarrow> DetectionRule list \<Rightarrow> rules_acc \<times> LLMService
     \<Rightarrow> rules_acc \<times> LLMService" where
  "evaluateRules_loop env event ctx [] st = st"
| "evaluateRules_loop env event ctx (rule # rest) st =
     evaluateRules_loop env event ctx rest (evaluateRules_step env event ctx rule st)"

definition evaluateRules ::
  "Env \<Rightarrow> SecurityEvent \<Rightarrow> RuleContext \<Rightarrow> DetectionAgent \<Rightarrow> RuleResults \<times> DetectionAgent" where
  "evaluateRules env event ctx s =
     (case evaluateRules_loop env event ctx (map snd (activeRules s)) (([], False, 0), llmService s) of
        ((matchedRules, needsRecommendation, falsePositiveRisk), l) \<Rightarrow>
          (\<lparr>rr_matchedRules = matchedRules, rr_needsRecommendation = needsRecommendation,
            rr_falsePositiveRisk = min 1 falsePositiveRisk\<rparr>,
           s\<lparr>llmService := l\<rparr>))"

subsection \<open>The pipeline\<close>

text \<open>\<^verbatim>\<open>generateRecommendations\<close> catches what the service throws; each recommendation
  that comes back is stored and counted.\<close>

definition generateRecommendations :: "Env \<Rightarrow> SecurityEvent \<Rightarrow> RuleResults \<Rightarrow> DetectionAgent \<Rightarrow> DetectionAgent" where
  "generateRecommendations env event ruleResults s =
     (case LLMService_generateRecommendations (llm_oracle env) (llmService s) of
        (Inl err, l) \<Rightarrow> s\<lparr>llmService := l\<rparr>
      | (Inr n, l) \<Rightarrow> s\<lparr>llmService := l, recommendationsCreated := recommendationsCreated s + n\<rparr>)"

text \<open>\<^verbatim>\<open>KnowledgeBaseService.enrichEvent\<close> throws when the service is not initialized and
  rethrows what its lookups throw.\<close>

definition enrichEvent :: "Env \<Rightarrow> SecurityEvent \<Rightarrow> DetectionAgent \<Rightarrow> error + Enrichment" where
  "enrichEvent env event s = (if \<not> kb_isInitialized s then Inl NotInitialized else kb_lookup env event)"

text \<open>\<^verbatim>\<open>updateLearningModels\<close>: none of the three calls throws (\<^verbatim>\<open>updateBaseline\<close> and
  \<^verbatim>\<open>updateWithEvent\<close> catch, \<^verbatim>\<open>updateGraph\<close> only logs).\<close>

definition updateLearningModels :: "Env \<Rightarrow> SecurityEvent \<Rightarrow> DetectionAgent \<Rightarrow> DetectionAgent" where
  "updateLearningModels env event s =
     (let s1 = logCall (UpdateBaseline (ev_id event)) s;
          s2 = s1\<lparr>behavioralAnalytics :=
                    updateBaseline (behavioral_config env) (clock env) event (behavioralAnalytics s1)\<rparr>;
          s3 = logCall (UpdateGraph (ev_id event)) s2
      in logCall (UpdateWithEvent (ev_id event)) s3)"

text \<open>\<^verbatim>\<open>processEventPipeline\<close>: a step that throws ends the pipeline in its \<^verbatim>\<open>catch\<close>, which
  logs; what the steps before it have written stays.\<close>

definition processEventPipeline :: "Env \<Rightarrow> SecurityEvent \<Rightarrow> DetectionAgent \<Rightarrow> DetectionAgent" where
  "processEventPipeline env event s =
     (let s0 = logCall (AnalyzeEvent (ev_id event)) s
      in case analyzeEvent (behavioral_config env) (clock env) event (behavioralAnalytics s0) of
           (Inl err, ba) \<Rightarrow> s0\<lparr>behavioralAnalytics := ba\<rparr>
         | (Inr behavioralResult, ba) \<Rightarrow>
             (let s1 = logCall (CorrelateEvent (ev_id event)) (s0\<lparr>behavioralAnalytics := ba\<rparr>)
              in case correlateEvent (graph_config env) (graph_db env) (graphCorrelation s1) event of
                   Inl err \<Rightarrow> s1
                 | Inr correlationResult \<Rightarrow>
                     (let s2 = logCall (EnrichEvent (ev_id event)) s1
                      in case enrichEvent env event s2 of
                           Inl err \<Rightarrow> s2
                         | Inr enrichmentResult \<Rightarrow>
                             (case evaluateRules env event
                                     \<lparr>ctx_behavioral = behavioralResult,
                                      ctx_correlation = correlationResult,
                                      ctx_enrichment = enrichmentResult\<rparr>
                                     (logCall (EvaluateRules (ev_id event)) s2) of
                                (ruleResults, s3) \<Rightarrow>
                                  (let s4 = (if rr_needsRecommendation ruleResults
                                             then generateRecommendations env event ruleResults
                                                    (logCall (GenerateRecommendations (ev_id event)) s3)
                                             else s3)
                                   in updateLearningModels env event s4)))))"

text \<open>\<^verbatim>\<open>processQueue\<close>: the loop takes the events off the queue one at a time, each through
  the whole pipeline before the next.\<close>

fun drainQueue :: "Env \<Rightarrow> SecurityEvent list \<Rightarrow> DetectionAgent \<Rightarrow> DetectionAgent" where
  "drainQueue env [] s = s"
| "drainQueue env (event # rest) s =
     drainQueue env rest (processEventPipeline env event (s\<lparr>processingQueue := rest\<rparr>))"

definition processQueue :: "Env \<Rightarrow> DetectionAgent \<Rightarrow> DetectionAgent" where
  "processQueue env s =
     (if isProcessing s \<or> length (processingQueue s) = 0 then s
      else (drainQueue env (processingQueue s) (s\<lparr>isProcessing := True\<rparr>))\<lparr>isProcessing := False\<rparr>)"

definition processEvent :: "Env \<Rightarrow> SecurityEvent \<Rightarrow> DetectionAgent \<Rightarrow> DetectionAgent" where
  "processEvent env event s =
     (let s1 = s\<lparr>processingQueue := processingQueue s @ [event]\<rparr>;
          s2 = (if \<not> isProcessing s1 then processQueue env s1 else s1)
      in s2\<lparr>eventsProcessed := eventsProcessed s2 + 1\<rparr>)"

subsection \<open>Analyst feedback on a rule\<close>

text \<open>\<^verbatim>\<open>updateRulePerformance\<close> mutates the rule object that the map holds.\<close>

definition updateRulePerformance :: "Env \<Rightarrow> string \<Rightarrow> Feedback \<Rightarrow> DetectionAgent \<Rightarrow> DetectionAgent" where
  "updateRulePerformance env ruleId feedback s =
     (case map_of (activeRules s) ruleId of
        None \<Rightarrow> s
      | Some rule \<Rightarrow>
          (let perf = performance rule;
               perf1 = (if isFalsePositive feedback
                        then perf\<lparr>falsePositives := falsePositives perf + 1\<rparr>
                        else perf\<lparr>truePositives := truePositives perf + 1\<rparr>);
               total = truePositives perf1 + falsePositives perf1;
               perf2 = perf1\<lparr>accuracy := real (truePositives perf1) / real total\<rparr>;
               perf3 = perf2\<lparr>precision := real (truePositives perf2)
                                            / real (truePositives perf2 + falsePositives perf2)\<rparr>;
               perf4 = perf3\<lparr>perf_lastUpdated := clock env\<rparr>
           in s\<lparr>activeRules := obj_set (activeRules s) ruleId (rule\<lparr>performance := perf4\<rparr>)\<rparr>))"

definition processFeedback :: "Env \<Rightarrow> Feedback \<Rightarrow> DetectionAgent \<Rightarrow> DetectionAgent" where
  "processFeedback env feedback s =
     (let s1 = s\<lparr>behavioralAnalytics := processFeedback_behavioral feedback (behavioralAnalytics s)\<rparr>;
          s2 = (if truthy (fb_ruleId feedback)
                then updateRulePerformance env (the (fb_ruleId feedback)) feedback s1 else s1)
      in if isFalsePositive feedback
         then s2\<lparr>falsePositivesReduced := falsePositivesReduced s2 + 1\<rparr> else s2)"

section \<open>Notions of the specification and sample inputs\<close>

subsection \<open>Behavioural engine\<close>

text \<open>The deviation of the specification: \<open>|current - meanEMA| / varianceEMA\<close>, and 0 when
  the variance is not positive.\<close>

definition zScore_spec :: "real \<Rightarrow> real \<Rightarrow> real \<Rightarrow> real" where
  "zScore_spec meanEMA varianceEMA current =
     (if varianceEMA > 0 then \<bar>current - meanEMA\<bar> / varianceEMA else 0)"

text \<open>The deviation of a pattern of a baseline on an event, and the patterns of a list
  whose deviation exceeds the threshold.\<close>

definition patternZ :: "SecurityEvent \<Rightarrow> BehaviorPattern \<Rightarrow> real" where
  "patternZ event p = zScore_spec (frequency p) (variance p) (extractPatternValue event (p_type p))"

definition flagged :: "BehavioralConfig \<Rightarrow> SecurityEvent \<Rightarrow> BehaviorPattern list \<Rightarrow> BehaviorPattern list" where
  "flagged config event ps = filter (\<lambda>p. patternZ event p > anomalyThreshold config) ps"

definition anomalyOf :: "BehavioralConfig \<Rightarrow> SecurityEvent \<Rightarrow> BehaviorPattern \<Rightarrow> BehaviorAnomaly" where
  "anomalyOf config event p =
     mkAnomaly p (analyzePattern config p (extractPatternValue event (p_type p)) (ev_timestamp event))
       (extractPatternValue event (p_type p)) event"

definition ex_pattern :: BehaviorPattern where
  "ex_pattern = \<lparr>p_type = ''login_pattern'', frequency = 2, timing = initialTiming, p_context = [], variance = 1\<rparr>"

definition ex_date :: Date where
  "ex_date = \<lparr>getTime = 1000, getHours = 10, getDay = 2\<rparr>"

definition ex_user :: "string \<Rightarrow> EntityInfo" where
  "ex_user n = \<lparr>e_id = n, e_name = n, e_type = ''user''\<rparr>"

definition ex_event :: SecurityEvent where
  "ex_event = \<lparr>ev_id = ''ev1'', ev_timestamp = ex_date, ev_source = ''edr'', eventType = ''process_creation'',
       ev_entities = \<lparr>users = [ex_user ''u1'', ex_user ''u2'', ex_user ''u3'', ex_user ''u4'', ex_user ''u5''],
                       hosts = [], networks = [], processes = [], files = []\<rparr>,
       ev_risk_score = 0\<rparr>"

definition ex_config :: BehavioralConfig where
  "ex_config = \<lparr>baselineWindow = 24, anomalyThreshold = 0.7, learningRate = 0.1,
                 minSamplesForBaseline = 10, updateInterval = 60\<rparr>"

definition ex_baseline :: BehavioralBaseline where
  "ex_baseline = \<lparr>entityId = ''u1'', entityType = ''user'', patterns = [ex_pattern],
                   metrics = initializeMetrics, lastUpdated = ex_date, confidence = 0.5\<rparr>"

definition ex_engine :: BehavioralAnalytics where
  "ex_engine = \<lparr>baselines = [''u1'' \<mapsto> ex_baseline], ba_isInitialized = True, db_isConnected = True\<rparr>"

text \<open>The update of the specification: the new mean, and the new variance, whose
  deviation is taken against the new mean.\<close>

definition emaMean_spec :: "real \<Rightarrow> real \<Rightarrow> real \<Rightarrow> real" where
  "emaMean_spec lr meanEMA current = (1 - lr) * meanEMA + lr * current"

definition emaVariance_spec :: "real \<Rightarrow> real \<Rightarrow> real \<Rightarrow> real \<Rightarrow> real" where
  "emaVariance_spec lr meanEMA varianceEMA current =
     (1 - lr) * varianceEMA + lr * \<bar>current - emaMean_spec lr meanEMA current\<bar>"

text \<open>Every baseline of the map is filed under its own \<^verbatim>\<open>entityId\<close>: so it is after
  \<^verbatim>\<open>createInitialBaseline\<close> and after every update, and under it the entry that
  \<^verbatim>\<open>updateEntityBaseline\<close> writes is the entry it has read.\<close>

definition filed :: "BehavioralAnalytics \<Rightarrow> bool" where
  "filed s = (\<forall>k b. baselines s k = Some b \<longrightarrow> entityId b = k)"

text \<open>How many times an event refers to an entity id.\<close>

definition references :: "SecurityEvent \<Rightarrow> string \<Rightarrow> nat" where
  "references event k = count_list (map (\<lambda>ke. e_id (snd ke)) (entityEntries event)) k"

text \<open>The baseline that \<^verbatim>\<open>createInitialBaseline\<close> files, and the analysis of an entity
  without anomalies.\<close>

definition freshBaseline :: "Date \<Rightarrow> string \<Rightarrow> string \<Rightarrow> BehavioralBaseline" where
  "freshBaseline now k t =
     \<lparr>entityId = k, entityType = t, patterns = initializePatterns, metrics = initializeMetrics,
      lastUpdated = now, confidence = 0.1\<rparr>"

definition noAnomalies :: EntityAnalysis where
  "noAnomalies = \<lparr>ea_anomalies = [], ea_riskScore = 0, ea_confidence = 0\<rparr>"

text \<open>No entity of the event has a baseline.\<close>

definition unknownEntities :: "SecurityEvent \<Rightarrow> BehavioralAnalytics \<Rightarrow> bool" where
  "unknownEntities event s = (\<forall>ke \<in> set (entityEntries event). baselines s (e_id (snd ke)) = None)"

definition ex_new_engine :: BehavioralAnalytics where
  "ex_new_engine = \<lparr>baselines = Map.empty, ba_isInitialized = True, db_isConnected = True\<rparr>"

text \<open>The entries of an event that refer to other entities than \<open>u\<close>, and what
  \<^verbatim>\<open>analyzeEvent\<close> makes of the accumulators of its loop: the anomalies, the risk score and
  the confidence of its result.\<close>

definition otherEntities :: "string \<Rightarrow> (string \<times> EntityInfo) list \<Rightarrow> (string \<times> EntityInfo) list" where
  "otherEntities u ents = filter (\<lambda>ke. e_id (snd ke) \<noteq> u) ents"

definition scoresOf :: "analysis_acc \<Rightarrow> BehaviorAnomaly list \<times> real \<times> real" where
  "scoresOf acc =
     (case acc of (anomalies, totalRiskScore, totalConfidence, analysisCount) \<Rightarrow>
        (anomalies,
         if analysisCount > 0 then totalRiskScore / real analysisCount else 0,
         if analysisCount > 0 then totalConfidence / real analysisCount else 0))"

text \<open>An initialized engine with an empty store whose database is not connected.\<close>

definition ex_offline_engine :: BehavioralAnalytics where
  "ex_offline_engine = \<lparr>baselines = Map.empty, ba_isInitialized = True, db_isConnected = False\<rparr>"

text \<open>The entities that occur as an end of a correlation, and the relation that links two
  entities when a correlation joins them, in either direction.\<close>

definition endpoints :: "EntityCorrelation list \<Rightarrow> string set" where
  "endpoints correlations = sourceEntity ` set correlations \<union> targetEntity ` set correlations"

definition linked :: "EntityCorrelation list \<Rightarrow> (string \<times> string) set" where
  "linked correlations =
     {(a, b). \<exists>c \<in> set correlations. (a = sourceEntity c \<and> b = targetEntity c)
                                     \<or> (a = targetEntity c \<and> b = sourceEntity c)}"

text \<open>The relation of the adjacency map, and a set of nodes that contains the neighbours
  of each of its members.\<close>

definition adjRel :: "adjacency \<Rightarrow> (string \<times> string) set" where
  "adjRel graph = {(a, b). b \<in> set (neighborsOf graph a)}"

definition closedUnder :: "adjacency \<Rightarrow> string set \<Rightarrow> bool" where
  "closedUnder graph V = (\<forall>x \<in> V. set (neighborsOf graph x) \<subseteq> V)"

text \<open>What the loop over the keys maintains: the components found so far cover the visited
  set, no entity occurs twice in them, and each is the set of the entities reachable from
  any of its members.\<close>

definition componentsOK :: "adjacency \<Rightarrow> string set \<Rightarrow> string list list \<Rightarrow> bool" where
  "componentsOK graph V components =
     (V = \<Union> (set ` set components) \<and> distinct (concat components)
      \<and> (\<forall>c \<in> set components. c \<noteq> [] \<and> (\<forall>x \<in> set c. set c = {y. (x, y) \<in> (adjRel graph)\<^sup>*})))"

definition mkCorrelation :: "string \<Rightarrow> string \<Rightarrow> string \<Rightarrow> real \<Rightarrow> real \<Rightarrow> EntityCorrelation" where
  "mkCorrelation a b r s c =
     \<lparr>sourceEntity = a, targetEntity = b, relationship = r, strength = s, c_confidence = c,
      evidence = [], c_lastSeen = ex_date\<rparr>"

definition ex_ab :: EntityCorrelation where
  "ex_ab = mkCorrelation ''A'' ''B'' ''executes'' 0.9 0.9"

definition ex_bc :: EntityCorrelation where
  "ex_bc = mkCorrelation ''B'' ''C'' ''accesses'' 0.85 0.8"

definition ex_de :: EntityCorrelation where
  "ex_de = mkCorrelation ''D'' ''E'' ''owns'' 0.6 0.6"

definition ex_corrs :: "EntityCorrelation list" where
  "ex_corrs = [ex_ab, ex_bc, ex_de]"

text \<open>The correlations that have both ends in a list of entities.\<close>

definition internalEdges :: "string list \<Rightarrow> EntityCorrelation list \<Rightarrow> EntityCorrelation list" where
  "internalEdges entities correlations =
     filter (\<lambda>corr. sourceEntity corr \<in> set entities \<and> targetEntity corr \<in> set entities) correlations"

text \<open>The risk score of the specification, for a chain of \<open>n\<close> entities with the given
  internal edges: \<open>0.4 * min(1, n/10) + 0.4 * (mean strength) + 0.2 * (mean confidence)\<close>.\<close>

definition chainRisk_spec :: "nat \<Rightarrow> EntityCorrelation list \<Rightarrow> real" where
  "chainRisk_spec n edges =
     0.4 * min 1 (real n / 10)
     + 0.4 * (sum_list (map strength edges) / real (length edges))
     + 0.2 * (sum_list (map c_confidence edges) / real (length edges))"

text \<open>The components that yield a chain: at least three entities and a risk above 0.5.\<close>

definition emits :: "EntityCorrelation list \<Rightarrow> string list \<Rightarrow> bool" where
  "emits correlations component =
     (length component \<ge> 3
      \<and> calculateChainRiskScore component (internalEdges component correlations) > 0.5)"

text \<open>The table of the specification, on the set of the relationship types of the internal
  edges: the first line that applies gives the pattern.\<close>

definition classify_spec :: "string set \<Rightarrow> string" where
  "classify_spec types =
     (if ''communicates_with'' \<in> types \<and> ''accesses'' \<in> types then ''lateral_movement''
      else if ''executes'' \<in> types \<and> ''accesses'' \<in> types then ''privilege_escalation''
      else if ''communicates_with'' \<in> types \<and> card types > 2 then ''command_and_control''
      else if ''accesses'' \<in> types \<and> card types > 3 then ''data_exfiltration''
      else ''suspicious_activity'')"

definition ex_scenario :: "EntityCorrelation list" where
  "ex_scenario = [ex_ab, ex_bc]"

text \<open>An event with the three entities A, B and C, and a graph database that holds the two
  relationships of the scenario, answering for each entity with those that touch it.\<close>

definition ex_abc_event :: SecurityEvent where
  "ex_abc_event = \<lparr>ev_id = ''ev2'', ev_timestamp = ex_date, ev_source = ''edr'', eventType = ''process_creation'',
       ev_entities = \<lparr>users = [ex_user ''A''], hosts = [ex_user ''B''], networks = [],
                       processes = [], files = [ex_user ''C'']\<rparr>,
       ev_risk_score = 0\<rparr>"

definition mkRecord :: "string \<Rightarrow> string \<Rightarrow> real \<Rightarrow> real \<Rightarrow> QueryRecord" where
  "mkRecord t r s c =
     \<lparr>q_targetId = t, q_relationship = r, q_strength = s, q_confidence = c, q_evidence = None,
      q_lastSeen = ex_date\<rparr>"

definition ex_db :: neo4j where
  "ex_db entity cutoffTime =
     (if entity = ''A'' then Inr [mkRecord ''B'' ''executes'' 0.9 0.9]
      else if entity = ''B'' then Inr [mkRecord ''A'' ''executes'' 0.9 0.9, mkRecord ''C'' ''accesses'' 0.85 0.8]
      else if entity = ''C'' then Inr [mkRecord ''B'' ''accesses'' 0.85 0.8]
      else Inr [])"

definition ex_graph_config :: GraphConfig where
  "ex_graph_config = \<lparr>correlationWindow = 6, minCorrelationStrength = 0.5, maxGraphSize = 1000\<rparr>"

definition ex_graph_engine :: GraphCorrelationEngine where
  "ex_graph_engine = \<lparr>ge_isInitialized = True, ge_driver = True\<rparr>"

definition ex_found :: "EntityCorrelation list" where
  "ex_found =
     [mkCorrelation ''A'' ''B'' ''executes'' 0.9 0.9, mkCorrelation ''B'' ''A'' ''executes'' 0.9 0.9,
      mkCorrelation ''B'' ''C'' ''accesses'' 0.85 0.8, mkCorrelation ''C'' ''B'' ''accesses'' 0.85 0.8]"

subsection \<open>Orchestrator\<close>

text \<open>The request that the service is about to make fails, or the service cannot make it:
  the service is not initialized, it has no client, the request fails (an error or a
  timeout), or the text that comes back does not parse.\<close>

definition oracleFails :: "Env \<Rightarrow> LLMService \<Rightarrow> bool" where
  "oracleFails env l =
     (\<not> llm_isInitialized l \<or> \<not> llm_client l
      \<or> llm_oracle env (llm_requests l) = CompletionFailed
      \<or> llm_oracle env (llm_requests l) = ParseFailed)"

text \<open>The evaluations that the loop of \<^verbatim>\<open>evaluateRules\<close> makes: each rule with the result
  of its evaluation, in order.\<close>

fun evaluations ::
  "Env \<Rightarrow> SecurityEvent \<Rightarrow> RuleContext \<Rightarrow> DetectionRule list \<Rightarrow> LLMService
     \<Rightarrow> (DetectionRule \<times> RuleEvaluationResult) list" where
  "evaluations env event ctx [] l = []"
| "evaluations env event ctx (rule # rest) l =
     (case evaluateRule env rule event ctx l of
        (r, l1) \<Rightarrow> (rule, r) # evaluations env event ctx rest l1)"

text \<open>What an evaluation adds to the false-positive risk, and whether it asks for a
  recommendation.\<close>

definition fpContribution :: "RuleEvaluationResult \<Rightarrow> real" where
  "fpContribution r = (if matches r \<and> re_confidence r < 0.7 then (1 - re_confidence r) * 0.3 else 0)"

definition asksRecommendation :: "SecurityEvent \<Rightarrow> DetectionRule \<times> RuleEvaluationResult \<Rightarrow> bool" where
  "asksRecommendation event rr =
     (matches (snd rr) \<and> re_confidence (snd rr) > 0.8 \<and> \<not> hasSimilarRule (fst rr) event)"

text \<open>A rule without a first technique, or with the empty string as its first technique.\<close>

definition noTechnique :: "DetectionRule \<Rightarrow> bool" where
  "noTechnique rule = (case mitreTechniques rule of [] \<Rightarrow> True | t # _ \<Rightarrow> t = [])"

definition ex_perf :: RulePerformance where
  "ex_perf = \<lparr>totalMatches = 10, truePositives = 3, falsePositives = 1, falseNegatives = 5,
              accuracy = 0, precision = 0, recall = 0, f1Score = 0, perf_lastUpdated = ex_date\<rparr>"

definition ex_rule :: DetectionRule where
  "ex_rule = \<lparr>r_id = ''r1'', r_name = ''Rule 1'', mitreTechniques = [], performance = ex_perf\<rparr>"

definition ex_llm :: LLMService where
  "ex_llm = \<lparr>llm_isInitialized = True, llm_client = True, llm_requests = 0\<rparr>"

definition ex_agent :: DetectionAgent where
  "ex_agent = \<lparr>behavioralAnalytics = ex_engine, graphCorrelation = ex_graph_engine, llmService = ex_llm,
       kb_isInitialized = True, activeRules = [(''r1'', ex_rule)], processingQueue = [],
       isProcessing = False, eventsProcessed = 0, recommendationsCreated = 0,
       falsePositivesReduced = 0, calls = []\<rparr>"

definition ex_enrichment :: Enrichment where
  "ex_enrichment = \<lparr>threatMatches = 0, attackPatterns = 0, en_recommendations = []\<rparr>"

definition ex_match :: LLMJson where
  "ex_match = \<lparr>j_matches = True, j_confidence = Some 0.95, j_reason = Some ''match'', j_arrayLength = None\<rparr>"

text \<open>Two surroundings: one whose language model times out on every request, one whose
  language model answers every request with a match of confidence 0.95.\<close>

definition ex_env_failing :: Env where
  "ex_env_failing = \<lparr>behavioral_config = ex_config, graph_config = ex_graph_config, clock = ex_date,
       graph_db = ex_db, llm_oracle = (\<lambda>n. CompletionFailed), kb_lookup = (\<lambda>e. Inr ex_enrichment)\<rparr>"

definition ex_env_matching :: Env where
  "ex_env_matching = \<lparr>behavioral_config = ex_config, graph_config = ex_graph_config, clock = ex_date,
       graph_db = ex_db, llm_oracle = (\<lambda>n. Parsed ex_match), kb_lookup = (\<lambda>e. Inr ex_enrichment)\<rparr>"

definition ex_ctx :: RuleContext where
  "ex_ctx = \<lparr>ctx_behavioral = \<lparr>br_anomalies = [], br_riskScore = 0, br_confidence = 0,
                     br_baselineComparison = \<lparr>bc_overallDeviation = 0, bc_patternDeviations = [],
                        bc_riskFactors = [], bc_normalPatterns = 0, bc_anomalousPatterns = 0\<rparr>,
                     br_recommendations = []\<rparr>,
              ctx_correlation = \<lparr>cr_correlations = [], cr_networkStrength = 0, cr_threatChains = [],
                     cr_riskScore = 0, cr_recommendations = []\<rparr>,
              ctx_enrichment = ex_enrichment\<rparr>"

definition ex_feedback :: Feedback where
  "ex_feedback = \<lparr>fb_id = ''f1'', fb_entityId = None, fb_ruleId = Some ''r1'', isFalsePositive = False\<rparr>"

text \<open>Reading a log of calls from its start: an analysis of an event makes the event
  pending, an update of the baselines for an event needs the event pending and takes it
  off. The log scores before it updates when the reading never meets an update for an
  event that is not pending.\<close>

fun scan :: "string list \<Rightarrow> call list \<Rightarrow> string list option" where
  "scan pending [] = Some pending"
| "scan pending (AnalyzeEvent e # cs) = scan (e # pending) cs"
| "scan pending (UpdateBaseline e # cs) =
     (if e \<in> set pending then scan (remove1 e pending) cs else None)"
| "scan pending (c # cs) = scan pending cs"

definition scoreThenUpdate :: "call list \<Rightarrow> bool" where
  "scoreThenUpdate trace = (scan [] trace \<noteq> None)"

text \<open>A stretch of a log without analyses and without updates of the baselines.\<close>

definition quiet :: "call list \<Rightarrow> bool" where
  "quiet trace = list_all (\<lambda>c. case c of AnalyzeEvent e \<Rightarrow> False | UpdateBaseline e \<Rightarrow> False | _ \<Rightarrow> True) trace"

text \<open>What one run of the pipeline adds to the log.\<close>

definition pipelineLog :: "Env \<Rightarrow> SecurityEvent \<Rightarrow> DetectionAgent \<Rightarrow> call list" where
  "pipelineLog env event s = drop (length (calls s)) (calls (processEventPipeline env event s))"

text \<open>The agent at the call of \<^verbatim>\<open>evaluateRules\<close>: the analysis has left \<open>ba\<close> in the
  behavioural engine, and the four calls made so far are in the log.\<close>

definition stagesDone :: "SecurityEvent \<Rightarrow> BehavioralAnalytics \<Rightarrow> DetectionAgent \<Rightarrow> DetectionAgent" where
  "stagesDone event ba s =
     logCall (EvaluateRules (ev_id event))
       (logCall (EnrichEvent (ev_id event))
          (logCall (CorrelateEvent (ev_id event))
             ((logCall (AnalyzeEvent (ev_id event)) s)\<lparr>behavioralAnalytics := ba\<rparr>)))"

section \<open>Properties\<close>

subsection \<open>Scoring against a baseline\<close>

lemma analyzePattern_fields:
  "isAnomaly (analyzePattern config p cur ts) = (zScore_spec (frequency p) (variance p) cur > anomalyThreshold config)"
  "pa_severity (analyzePattern config p cur ts) = min 1 (zScore_spec (frequency p) (variance p) cur / 3)"
  "pa_confidence (analyzePattern config p cur ts) = min 1 (frequency p / 100)"
  by (simp_all add: analyzePattern_def zScore_spec_def Let_def)

text \<open>The loop over the patterns pushes one anomaly for each flagged pattern, in order.\<close>

lemma analyzePatterns_acc:
  "analyzePatterns config event ps (an, r, c, n) =
     (an @ map (anomalyOf config event) (flagged config event ps),
      r + sum_list (map (\<lambda>p. a_severity (anomalyOf config event p) * a_confidence (anomalyOf config event p)) (flagged config event ps)),
      c + sum_list (map (\<lambda>p. a_confidence (anomalyOf config event p)) (flagged config event ps)),
      n + length (flagged config event ps))"
proof (induction ps arbitrary: an r c n)
  case Nil
  show ?case by (simp add: flagged_def)
next
  case (Cons p ps)
  show ?case
    by (simp add: Let_def Cons.IH analyzePattern_fields patternZ_def flagged_def anomalyOf_def mkAnomaly_def)
qed

lemma anomalyOf_fields:
  "a_type (anomalyOf config event p) = p_type p"
  "a_severity (anomalyOf config event p) = min 1 (patternZ event p / 3)"
  "a_confidence (anomalyOf config event p) = min 1 (frequency p / 100)"
  "a_baseline (anomalyOf config event p) = frequency p"
  "a_current (anomalyOf config event p) = extractPatternValue event (p_type p)"
  by (simp_all add: anomalyOf_def mkAnomaly_def analyzePattern_fields patternZ_def)

text \<open>
  Claim C3. For a pattern with mean \<open>frequency\<close> and variance \<open>variance\<close> and a current
  value, \<^verbatim>\<open>analyzePattern\<close> computes the deviation \<open>z = |current - mean| / variance\<close> when
  the variance is positive and \<open>z = 0\<close> otherwise, flags an anomaly exactly when \<open>z\<close> exceeds
  \<^verbatim>\<open>anomalyThreshold\<close>, and gives severity \<open>min(1, z/3)\<close> and confidence
  \<open>min(1, frequency/100)\<close>: the prior sample weight of the claim is the \<^verbatim>\<open>frequency\<close>
  field of the pattern, the same field that holds the mean. For an entity that has a
  baseline, the anomalies that \<^verbatim>\<open>analyzeEntityBehavior\<close> returns are those of the patterns
  whose deviation exceeds the threshold, in order, with these severities and confidences,
  and the analysis leaves the engine's state as it was.
\<close>

theorem pattern_scoring:
  "isAnomaly (analyzePattern config pattern currentValue timestamp)
     = (zScore_spec (frequency pattern) (variance pattern) currentValue > anomalyThreshold config)
   \<and> pa_severity (analyzePattern config pattern currentValue timestamp)
     = min 1 (zScore_spec (frequency pattern) (variance pattern) currentValue / 3)
   \<and> pa_confidence (analyzePattern config pattern currentValue timestamp)
     = min 1 (frequency pattern / 100)
   \<and> (\<forall>baseline. baselines s (e_id entity) = Some baseline \<longrightarrow>
         (\<exists>ea. analyzeEntityBehavior config now entity event s = (Inr ea, s)
            \<and> map a_type (ea_anomalies ea) = map p_type (flagged config event (patterns baseline))
            \<and> map a_severity (ea_anomalies ea)
                = map (\<lambda>p. min 1 (patternZ event p / 3)) (flagged config event (patterns baseline))
            \<and> map a_confidence (ea_anomalies ea)
                = map (\<lambda>p. min 1 (frequency p / 100)) (flagged config event (patterns baseline))))"
  by (simp add: analyzePattern_fields analyzeEntityBehavior_def analyzePatterns_acc anomalyOf_fields comp_def)

text \<open>An entity with mean 2 and variance 1 on an event with five users: \<open>z = 3\<close>, one
  anomaly, of severity 1 and confidence 0.02.\<close>

theorem pattern_scoring_witness:
  "\<exists>ea. analyzeEntityBehavior ex_config ex_date (ex_user ''u1'') ex_event ex_engine = (Inr ea, ex_engine)
      \<and> map a_type (ea_anomalies ea) = [''login_pattern'']
      \<and> map a_severity (ea_anomalies ea) = [1]
      \<and> map a_confidence (ea_anomalies ea) = [1 / 50]"
proof -
  have b: "baselines ex_engine (e_id (ex_user ''u1'')) = Some ex_baseline"
    by (simp add: ex_engine_def ex_user_def)
  have f: "flagged ex_config ex_event (patterns ex_baseline) = [ex_pattern]"
    by (simp add: flagged_def patternZ_def zScore_spec_def ex_baseline_def ex_pattern_def ex_config_def
        ex_event_def extractPatternValue_def)
  have z: "patternZ ex_event ex_pattern = 3"
    by (simp add: patternZ_def zScore_spec_def ex_pattern_def ex_event_def extractPatternValue_def)
  from pattern_scoring[of ex_config ex_pattern 5 ex_date ex_engine "ex_user ''u1''" ex_date ex_event] b
  obtain ea where
    "analyzeEntityBehavior ex_config ex_date (ex_user ''u1'') ex_event ex_engine = (Inr ea, ex_engine)"
    "map a_type (ea_anomalies ea) = map p_type (flagged ex_config ex_event (patterns ex_baseline))"
    "map a_severity (ea_anomalies ea)
       = map (\<lambda>p. min 1 (patternZ ex_event p / 3)) (flagged ex_config ex_event (patterns ex_baseline))"
    "map a_confidence (ea_anomalies ea)
       = map (\<lambda>p. min 1 (frequency p / 100)) (flagged ex_config ex_event (patterns ex_baseline))"
    by blast
  then show ?thesis
    by (intro exI[of _ ea]) (simp add: f z, simp add: ex_pattern_def)
qed

subsection \<open>Updating a baseline\<close>

lemma updatePattern_fields:
  "frequency (updatePattern config event p)
     = emaMean_spec (learningRate config) (frequency p) (extractPatternValue event (p_type p))"
  "variance (updatePattern config event p)
     = emaVariance_spec (learningRate config) (frequency p) (variance p) (extractPatternValue event (p_type p))"
  "p_type (updatePattern config event p) = p_type p"
  by (simp_all add: updatePattern_def Let_def emaMean_spec_def emaVariance_spec_def)

lemma updatedBaseline_fields:
  "patterns (updatedBaseline config now b event) = map (updatePattern config event) (patterns b)"
  "confidence (updatedBaseline config now b event) = min 1 (confidence b + 0.01)"
  "entityId (updatedBaseline config now b event) = entityId b"
  "entityType (updatedBaseline config now b event) = entityType b"
  by (simp_all add: updatedBaseline_def Let_def)

lemma updateEntityBaseline_eq:
  "updateEntityBaseline config now b event s =
     (if db_isConnected s then Inr () else Inl DatabaseNotConnected,
      s\<lparr>baselines := (baselines s)(entityId b \<mapsto> updatedBaseline config now b event)\<rparr>)"
  by (simp add: updateEntityBaseline_def Let_def storeBaseline_def updatedBaseline_fields)

lemma createInitialBaseline_eq:
  "createInitialBaseline now k t event s =
     (if db_isConnected s then Inr () else Inl DatabaseNotConnected,
      s\<lparr>baselines := (baselines s)(k \<mapsto>
           \<lparr>entityId = k, entityType = t, patterns = initializePatterns, metrics = initializeMetrics,
            lastUpdated = now, confidence = 0.1\<rparr>)\<rparr>)"
  by (simp add: createInitialBaseline_def Let_def storeBaseline_def)

text \<open>With the database connected, the loop of \<^verbatim>\<open>updateBaseline\<close> runs to its end and
  updates the baseline of an entity once for each reference of the event to it.\<close>

lemma updateBaseline_loop_connected:
  "filed s \<Longrightarrow> db_isConnected s \<Longrightarrow>
     \<exists>s'. updateBaseline_loop config now event ents s = (Inr (), s')
        \<and> filed s' \<and> db_isConnected s'
        \<and> (\<forall>k b. baselines s k = Some b \<longrightarrow>
              baselines s' k = Some (((\<lambda>b. updatedBaseline config now b event)
                                        ^^ count_list (map (\<lambda>ke. e_id (snd ke)) ents) k) b))"
proof (induction ents arbitrary: s)
  case Nil
  then show ?case by simp
next
  case (Cons ke rest)
  obtain key e where ke: "ke = (key, e)" by (cases ke)
  let ?upd = "\<lambda>b. updatedBaseline config now b event"
  let ?fresh = "\<lparr>entityId = e_id e, entityType = key, patterns = initializePatterns,
                  metrics = initializeMetrics, lastUpdated = now, confidence = 0.1\<rparr>"
  show ?case
  proof (cases "baselines s (e_id e)")
    case None
    let ?s2 = "s\<lparr>baselines := (baselines s)(e_id e \<mapsto> ?upd ?fresh)\<rparr>"
    have step: "updateBaseline_loop config now event (ke # rest) s
                  = updateBaseline_loop config now event rest ?s2"
      using None Cons.prems(2)
      by (simp add: ke createInitialBaseline_eq updateEntityBaseline_eq updatedBaseline_fields)
    have f2: "filed ?s2" using Cons.prems(1) by (simp add: filed_def updatedBaseline_fields)
    have c2: "db_isConnected ?s2" using Cons.prems(2) by simp
    from Cons.IH[OF f2 c2] obtain s' where
      s': "updateBaseline_loop config now event rest ?s2 = (Inr (), s')" "filed s'" "db_isConnected s'"
          "\<forall>k b. baselines ?s2 k = Some b \<longrightarrow>
              baselines s' k = Some ((?upd ^^ count_list (map (\<lambda>ke. e_id (snd ke)) rest) k) b)"
      by blast
    have "\<forall>k b. baselines s k = Some b \<longrightarrow>
              baselines s' k = Some ((?upd ^^ count_list (map (\<lambda>ke. e_id (snd ke)) (ke # rest)) k) b)"
    proof (intro allI impI)
      fix k b assume kb: "baselines s k = Some b"
      with None have ne: "k \<noteq> e_id e" by auto
      then have "baselines ?s2 k = Some b" using kb by simp
      with s'(4) have "baselines s' k = Some ((?upd ^^ count_list (map (\<lambda>ke. e_id (snd ke)) rest) k) b)"
        by blast
      then show "baselines s' k = Some ((?upd ^^ count_list (map (\<lambda>ke. e_id (snd ke)) (ke # rest)) k) b)"
        using ne by (simp add: ke)
    qed
    with step s' show ?thesis by auto
  next
    case (Some b0)
    from Cons.prems(1) Some have id0: "entityId b0 = e_id e" by (simp add: filed_def)
    let ?s2 = "s\<lparr>baselines := (baselines s)(e_id e \<mapsto> ?upd b0)\<rparr>"
    have step: "updateBaseline_loop config now event (ke # rest) s
                  = updateBaseline_loop config now event rest ?s2"
      using Some Cons.prems(2) id0
      by (simp add: ke updateEntityBaseline_eq)
    have f2: "filed ?s2" using Cons.prems(1) id0 by (simp add: filed_def updatedBaseline_fields)
    have c2: "db_isConnected ?s2" using Cons.prems(2) by simp
    from Cons.IH[OF f2 c2] obtain s' where
      s': "updateBaseline_loop config now event rest ?s2 = (Inr (), s')" "filed s'" "db_isConnected s'"
          "\<forall>k b. baselines ?s2 k = Some b \<longrightarrow>
              baselines s' k = Some ((?upd ^^ count_list (map (\<lambda>ke. e_id (snd ke)) rest) k) b)"
      by blast
    have "\<forall>k b. baselines s k = Some b \<longrightarrow>
              baselines s' k = Some ((?upd ^^ count_list (map (\<lambda>ke. e_id (snd ke)) (ke # rest)) k) b)"
    proof (intro allI impI)
      fix k b assume kb: "baselines s k = Some b"
      show "baselines s' k = Some ((?upd ^^ count_list (map (\<lambda>ke. e_id (snd ke)) (ke # rest)) k) b)"
      proof (cases "k = e_id e")
        case True
        with kb Some have "b = b0" by simp
        have "baselines ?s2 k = Some (?upd b0)" using True by simp
        with s'(4) have "baselines s' k
            = Some ((?upd ^^ count_list (map (\<lambda>ke. e_id (snd ke)) rest) k) (?upd b0))"
          by blast
        moreover have "(?upd ^^ count_list (map (\<lambda>ke. e_id (snd ke)) rest) k) (?upd b0)
            = ?upd ((?upd ^^ count_list (map (\<lambda>ke. e_id (snd ke)) rest) k) b0)"
          by (rule funpow_swap1[symmetric])
        ultimately show ?thesis using True \<open>b = b0\<close> by (simp add: ke)
      next
        case False
        then have "baselines ?s2 k = Some b" using kb by simp
        with s'(4) have "baselines s' k = Some ((?upd ^^ count_list (map (\<lambda>ke. e_id (snd ke)) rest) k) b)"
          by blast
        then show ?thesis using False by (simp add: ke)
      qed
    qed
    with step s' show ?thesis by auto
  qed
qed

text \<open>
  Claim C4. An update of a baseline sets, for every pattern, the mean to
  \<open>(1 - learningRate) * mean + learningRate * current\<close> and the variance to
  \<open>(1 - learningRate) * variance + learningRate * |current - mean'|\<close> with \<open>mean'\<close> the
  new mean, and the confidence to \<open>min(1, confidence + 0.01)\<close>; so the confidence never
  exceeds 1 after an update and, for a confidence that was at most 1, does not decrease.
  \<^verbatim>\<open>updateEntityBaseline\<close> files the updated baseline under its id whether or not the write
  to the database throws, and \<^verbatim>\<open>updateBaseline\<close>, on a well-filed store with the database
  connected, applies the update to an entity's baseline once for each reference of the
  event to the entity.
\<close>

theorem baseline_update:
  "map frequency (patterns (updatedBaseline config now baseline event))
     = map (\<lambda>p. emaMean_spec (learningRate config) (frequency p) (extractPatternValue event (p_type p)))
           (patterns baseline)
   \<and> map variance (patterns (updatedBaseline config now baseline event))
     = map (\<lambda>p. emaVariance_spec (learningRate config) (frequency p) (variance p)
                   (extractPatternValue event (p_type p)))
           (patterns baseline)
   \<and> confidence (updatedBaseline config now baseline event) = min 1 (confidence baseline + 0.01)
   \<and> confidence (updatedBaseline config now baseline event) \<le> 1
   \<and> (confidence baseline \<le> 1 \<longrightarrow> confidence baseline \<le> confidence (updatedBaseline config now baseline event))
   \<and> baselines (snd (updateEntityBaseline config now baseline event s)) (entityId baseline)
     = Some (updatedBaseline config now baseline event)
   \<and> (filed s \<and> db_isConnected s \<and> baselines s k = Some baseline \<longrightarrow>
        baselines (updateBaseline config now event s) k
          = Some (((\<lambda>b. updatedBaseline config now b event) ^^ references event k) baseline))"
proof (intro conjI impI)
  show "map frequency (patterns (updatedBaseline config now baseline event))
     = map (\<lambda>p. emaMean_spec (learningRate config) (frequency p) (extractPatternValue event (p_type p)))
           (patterns baseline)"
    by (simp add: updatedBaseline_fields updatePattern_fields comp_def)
  show "map variance (patterns (updatedBaseline config now baseline event))
     = map (\<lambda>p. emaVariance_spec (learningRate config) (frequency p) (variance p)
                   (extractPatternValue event (p_type p)))
           (patterns baseline)"
    by (simp add: updatedBaseline_fields updatePattern_fields comp_def)
  show "confidence (updatedBaseline config now baseline event) = min 1 (confidence baseline + 0.01)"
    by (simp add: updatedBaseline_fields)
  show "confidence (updatedBaseline config now baseline event) \<le> 1"
    by (simp add: updatedBaseline_fields)
  show "confidence baseline \<le> confidence (updatedBaseline config now baseline event)"
    if "confidence baseline \<le> 1"
    using that by (simp add: updatedBaseline_fields)
  show "baselines (snd (updateEntityBaseline config now baseline event s)) (entityId baseline)
     = Some (updatedBaseline config now baseline event)"
    by (simp add: updateEntityBaseline_eq)
  show "baselines (updateBaseline config now event s) k
          = Some (((\<lambda>b. updatedBaseline config now b event) ^^ references event k) baseline)"
    if h: "filed s \<and> db_isConnected s \<and> baselines s k = Some baseline"
  proof -
    from h updateBaseline_loop_connected[of s config now event "entityEntries event"]
    obtain s' where
      "updateBaseline_loop config now event (entityEntries event) s = (Inr (), s')"
      "\<forall>k b. baselines s k = Some b \<longrightarrow>
          baselines s' k = Some (((\<lambda>b. updatedBaseline config now b event)
                                    ^^ count_list (map (\<lambda>ke. e_id (snd ke)) (entityEntries event)) k) b)"
      by blast
    with h show ?thesis by (simp add: updateBaseline_def references_def)
  qed
qed

text \<open>The entity with mean 2, variance 1 and confidence 0.5 on the event with five users,
  at learning rate 0.1: mean 2.3, variance 1.17, confidence 0.51.\<close>

theorem baseline_update_witness:
  "baselines (updateBaseline ex_config ex_date ex_event ex_engine) ''u1''
     = Some (updatedBaseline ex_config ex_date ex_baseline ex_event)
   \<and> map frequency (patterns (updatedBaseline ex_config ex_date ex_baseline ex_event)) = [23 / 10]
   \<and> map variance (patterns (updatedBaseline ex_config ex_date ex_baseline ex_event)) = [117 / 100]
   \<and> confidence (updatedBaseline ex_config ex_date ex_baseline ex_event) = 51 / 100
   \<and> confidence ex_baseline \<le> confidence (updatedBaseline ex_config ex_date ex_baseline ex_event)"
proof -
  have f: "filed ex_engine" by (simp add: filed_def ex_engine_def ex_baseline_def)
  have c: "db_isConnected ex_engine" by (simp add: ex_engine_def)
  have b: "baselines ex_engine ''u1'' = Some ex_baseline" by (simp add: ex_engine_def)
  have r: "references ex_event ''u1'' = 1"
    by (simp add: references_def entityEntries_def Object_entries_def ex_event_def ex_user_def)
  have l: "confidence ex_baseline \<le> 1" by (simp add: ex_baseline_def)
  have v: "extractPatternValue ex_event ''login_pattern'' = 5"
    by (simp add: extractPatternValue_def ex_event_def)
  show ?thesis
    using baseline_update[of ex_config ex_date ex_baseline ex_event ex_engine "''u1''"] f c b l
    by (simp add: r, simp add: ex_baseline_def ex_pattern_def ex_config_def emaMean_spec_def
          emaVariance_spec_def v)
qed

subsection \<open>Cold start\<close>

lemma analyzeEntityBehavior_cold:
  "baselines s (e_id entity) = None \<Longrightarrow>
     analyzeEntityBehavior config now entity event s =
       (if db_isConnected s then Inr noAnomalies else Inl DatabaseNotConnected,
        s\<lparr>baselines := (baselines s)(e_id entity \<mapsto> freshBaseline now (e_id entity) (e_type entity))\<rparr>)"
  by (simp add: analyzeEntityBehavior_def createInitialBaseline_eq freshBaseline_def noAnomalies_def)

lemma flagged_initial:
  "0 \<le> anomalyThreshold config \<Longrightarrow> flagged config event initializePatterns = []"
  by (simp add: flagged_def initializePatterns_def initialPattern_def patternZ_def zScore_spec_def)

lemma analyzeEntityBehavior_initial:
  "0 \<le> anomalyThreshold config \<Longrightarrow> baselines s (e_id entity) = Some b \<Longrightarrow> patterns b = initializePatterns
     \<Longrightarrow> analyzeEntityBehavior config now entity event s = (Inr noAnomalies, s)"
  by (simp add: analyzeEntityBehavior_def analyzePatterns_acc flagged_initial noAnomalies_def)

text \<open>On entities that have no baseline or a fresh one, the loop of \<^verbatim>\<open>analyzeEvent\<close>
  finds no anomaly, keeps the baselines that are there and files a fresh one for each
  entity that had none.\<close>

lemma analyzeEntities_cold:
  assumes th: "0 \<le> anomalyThreshold config"
  shows "db_isConnected s
     \<Longrightarrow> \<forall>ke \<in> set ents. baselines s (e_id (snd ke)) = None
            \<or> (\<exists>b. baselines s (e_id (snd ke)) = Some b \<and> patterns b = initializePatterns)
     \<Longrightarrow> \<exists>s'. analyzeEntities config now event ents acc s = (Inr acc, s')
          \<and> (\<forall>k b. baselines s k = Some b \<longrightarrow> baselines s' k = Some b)
          \<and> (\<forall>ke \<in> set ents. baselines s (e_id (snd ke)) = None \<longrightarrow>
                (\<exists>t. baselines s' (e_id (snd ke)) = Some (freshBaseline now (e_id (snd ke)) t)))"
proof (induction ents arbitrary: s)
  case Nil
  then show ?case by simp
next
  case (Cons ke rest)
  obtain key e where ke: "ke = (key, e)" by (cases ke)
  obtain an r c n where acc: "acc = (an, r, c, n)" by (cases acc) auto
  show ?case
  proof (cases "baselines s (e_id e)")
    case None
    let ?s1 = "s\<lparr>baselines := (baselines s)(e_id e \<mapsto> freshBaseline now (e_id e) (e_type e))\<rparr>"
    have step: "analyzeEntities config now event (ke # rest) acc s
                  = analyzeEntities config now event rest acc ?s1"
      using None Cons.prems(1) by (simp add: ke acc analyzeEntityBehavior_cold noAnomalies_def)
    have c1: "db_isConnected ?s1" using Cons.prems(1) by simp
    have i1: "\<forall>ke \<in> set rest. baselines ?s1 (e_id (snd ke)) = None
            \<or> (\<exists>b. baselines ?s1 (e_id (snd ke)) = Some b \<and> patterns b = initializePatterns)"
      using Cons.prems(2) by (auto simp add: freshBaseline_def)
    from Cons.IH[OF c1 i1] obtain s' where
      s': "analyzeEntities config now event rest acc ?s1 = (Inr acc, s')"
          "\<forall>k b. baselines ?s1 k = Some b \<longrightarrow> baselines s' k = Some b"
          "\<forall>ke \<in> set rest. baselines ?s1 (e_id (snd ke)) = None \<longrightarrow>
                (\<exists>t. baselines s' (e_id (snd ke)) = Some (freshBaseline now (e_id (snd ke)) t))"
      by blast
    have head: "baselines s' (e_id e) = Some (freshBaseline now (e_id e) (e_type e))"
      using s'(2) by simp
    have keep: "\<forall>k b. baselines s k = Some b \<longrightarrow> baselines s' k = Some b"
    proof (intro allI impI)
      fix k b assume kb: "baselines s k = Some b"
      with None have "k \<noteq> e_id e" by auto
      with kb have "baselines ?s1 k = Some b" by simp
      with s'(2) show "baselines s' k = Some b" by blast
    qed
    have new: "\<forall>ke' \<in> set (ke # rest). baselines s (e_id (snd ke')) = None \<longrightarrow>
                (\<exists>t. baselines s' (e_id (snd ke')) = Some (freshBaseline now (e_id (snd ke')) t))"
    proof (intro ballI impI)
      fix ke' assume m: "ke' \<in> set (ke # rest)" and n: "baselines s (e_id (snd ke')) = None"
      show "\<exists>t. baselines s' (e_id (snd ke')) = Some (freshBaseline now (e_id (snd ke')) t)"
      proof (cases "e_id (snd ke') = e_id e")
        case True
        with head show ?thesis by auto
      next
        case False
        with m have "ke' \<in> set rest" by (auto simp add: ke)
        moreover from False n have "baselines ?s1 (e_id (snd ke')) = None" by simp
        ultimately show ?thesis using s'(3) by blast
      qed
    qed
    from step s'(1) keep new show ?thesis by auto
  next
    case (Some b0)
    with Cons.prems(2) have "patterns b0 = initializePatterns" by (auto simp add: ke)
    with Some th have a: "analyzeEntityBehavior config now e event s = (Inr noAnomalies, s)"
      by (simp add: analyzeEntityBehavior_initial)
    have step: "analyzeEntities config now event (ke # rest) acc s
                  = analyzeEntities config now event rest acc s"
      by (simp add: ke acc a noAnomalies_def)
    have i1: "\<forall>ke \<in> set rest. baselines s (e_id (snd ke)) = None
            \<or> (\<exists>b. baselines s (e_id (snd ke)) = Some b \<and> patterns b = initializePatterns)"
      using Cons.prems(2) by simp
    from Cons.IH[OF Cons.prems(1) i1] obtain s' where
      s': "analyzeEntities config now event rest acc s = (Inr acc, s')"
          "\<forall>k b. baselines s k = Some b \<longrightarrow> baselines s' k = Some b"
          "\<forall>ke \<in> set rest. baselines s (e_id (snd ke)) = None \<longrightarrow>
                (\<exists>t. baselines s' (e_id (snd ke)) = Some (freshBaseline now (e_id (snd ke)) t))"
      by blast
    have "\<forall>ke' \<in> set (ke # rest). baselines s (e_id (snd ke')) = None \<longrightarrow>
                (\<exists>t. baselines s' (e_id (snd ke')) = Some (freshBaseline now (e_id (snd ke')) t))"
      using s'(3) Some by (auto simp add: ke)
    with step s'(1) s'(2) show ?thesis by auto
  qed
qed

lemma analyzeEvent_cold:
  assumes "0 \<le> anomalyThreshold config" "ba_isInitialized s" "db_isConnected s" "unknownEntities event s"
  shows "\<exists>r s'. analyzeEvent config now event s = (Inr r, s')
           \<and> br_anomalies r = [] \<and> br_riskScore r = 0 \<and> br_confidence r = 0
           \<and> (\<forall>ke \<in> set (entityEntries event).
                 \<exists>t. baselines s' (e_id (snd ke)) = Some (freshBaseline now (e_id (snd ke)) t))"
proof -
  from assms(4) have i: "\<forall>ke \<in> set (entityEntries event). baselines s (e_id (snd ke)) = None
            \<or> (\<exists>b. baselines s (e_id (snd ke)) = Some b \<and> patterns b = initializePatterns)"
    by (simp add: unknownEntities_def)
  from analyzeEntities_cold[OF assms(1) assms(3) i, of now event "([], 0, 0, 0)"] obtain s' where
    s': "analyzeEntities config now event (entityEntries event) ([], 0, 0, 0) s = (Inr ([], 0, 0, 0), s')"
        "\<forall>ke \<in> set (entityEntries event). baselines s (e_id (snd ke)) = None \<longrightarrow>
                (\<exists>t. baselines s' (e_id (snd ke)) = Some (freshBaseline now (e_id (snd ke)) t))"
    by blast
  from s'(2) assms(4) have "\<forall>ke \<in> set (entityEntries event).
                 \<exists>t. baselines s' (e_id (snd ke)) = Some (freshBaseline now (e_id (snd ke)) t)"
    by (simp add: unknownEntities_def)
  then show ?thesis using assms(2) s'(1) by (simp add: analyzeEvent_def Let_def)
qed

lemma analyzeEntityBehavior_known:
  "baselines s1 (e_id e) = Some b \<Longrightarrow> baselines s2 (e_id e) = Some b \<Longrightarrow>
     fst (analyzeEntityBehavior config now e event s1) = fst (analyzeEntityBehavior config now e event s2)
     \<and> snd (analyzeEntityBehavior config now e event s1) = s1
     \<and> snd (analyzeEntityBehavior config now e event s2) = s2
     \<and> (\<exists>ea. fst (analyzeEntityBehavior config now e event s1) = Inr ea)"
  by (simp add: analyzeEntityBehavior_def split: prod.splits)

text \<open>The loop of \<^verbatim>\<open>analyzeEvent\<close> on all entries and on the entries of the other entities:
  when \<open>u\<close> has no baseline, or a fresh one, the two runs end with the same accumulators
  and with the same baselines for the other entities.\<close>

lemma analyzeEntities_skip:
  assumes th: "0 \<le> anomalyThreshold config"
  shows "db_isConnected s1 \<Longrightarrow> db_isConnected s2
     \<Longrightarrow> \<forall>k. k \<noteq> u \<longrightarrow> baselines s1 k = baselines s2 k
     \<Longrightarrow> baselines s1 u = None \<or> (\<exists>t. baselines s1 u = Some (freshBaseline now u t))
     \<Longrightarrow> \<exists>acc' s1' s2'.
            analyzeEntities config now event ents acc s1 = (Inr acc', s1')
          \<and> analyzeEntities config now event (otherEntities u ents) acc s2 = (Inr acc', s2')
          \<and> (\<forall>k. k \<noteq> u \<longrightarrow> baselines s1' k = baselines s2' k)
          \<and> ((\<exists>t. baselines s1 u = Some (freshBaseline now u t)) \<or> (\<exists>ke \<in> set ents. e_id (snd ke) = u)
                \<longrightarrow> (\<exists>t. baselines s1' u = Some (freshBaseline now u t)))"
proof (induction ents arbitrary: acc s1 s2)
  case (Nil acc s1 s2)
  then show ?case by (cases acc) (simp add: otherEntities_def)
next
  case (Cons ke rest acc s1 s2)
  obtain key e where ke: "ke = (key, e)" by (cases ke)
  obtain an r c n where acc: "acc = (an, r, c, n)" by (cases acc) auto
  show ?case
  proof (cases "e_id e = u")
    case True
    have o: "otherEntities u (ke # rest) = otherEntities u rest"
      using True by (simp add: otherEntities_def ke)
    from Cons.prems(4) show ?thesis
    proof
      assume none: "baselines s1 u = None"
      let ?s1 = "s1\<lparr>baselines := (baselines s1)(e_id e \<mapsto> freshBaseline now (e_id e) (e_type e))\<rparr>"
      have step: "analyzeEntities config now event (ke # rest) acc s1
                    = analyzeEntities config now event rest acc ?s1"
        using none True Cons.prems(1) by (simp add: ke acc analyzeEntityBehavior_cold noAnomalies_def)
      have c1: "db_isConnected ?s1" using Cons.prems(1) by simp
      have e1: "\<forall>k. k \<noteq> u \<longrightarrow> baselines ?s1 k = baselines s2 k"
        using Cons.prems(3) True by simp
      have f1: "baselines ?s1 u = None \<or> (\<exists>t. baselines ?s1 u = Some (freshBaseline now u t))"
        using True by auto
      from Cons.IH[OF c1 Cons.prems(2) e1 f1, of acc] obtain acc' s1' s2' where
        r: "analyzeEntities config now event rest acc ?s1 = (Inr acc', s1')"
           "analyzeEntities config now event (otherEntities u rest) acc s2 = (Inr acc', s2')"
           "\<forall>k. k \<noteq> u \<longrightarrow> baselines s1' k = baselines s2' k"
           "(\<exists>t. baselines ?s1 u = Some (freshBaseline now u t)) \<or> (\<exists>ke \<in> set rest. e_id (snd ke) = u)
              \<longrightarrow> (\<exists>t. baselines s1' u = Some (freshBaseline now u t))"
        by blast
      have "\<exists>t. baselines ?s1 u = Some (freshBaseline now u t)" using True by auto
      with r(4) have keep: "\<exists>t. baselines s1' u = Some (freshBaseline now u t)" by blast
      from step o r(1) r(2) r(3) keep show ?thesis
        by (intro exI[of _ acc'] exI[of _ s1'] exI[of _ s2']) auto
    next
      assume "\<exists>t. baselines s1 u = Some (freshBaseline now u t)"
      then obtain t where fr: "baselines s1 u = Some (freshBaseline now u t)" by blast
      have "patterns (freshBaseline now u t) = initializePatterns" by (simp add: freshBaseline_def)
      with fr True th have a: "analyzeEntityBehavior config now e event s1 = (Inr noAnomalies, s1)"
        by (simp add: analyzeEntityBehavior_initial)
      have step: "analyzeEntities config now event (ke # rest) acc s1
                    = analyzeEntities config now event rest acc s1"
        by (simp add: ke acc a noAnomalies_def)
      from Cons.IH[OF Cons.prems(1) Cons.prems(2) Cons.prems(3) Cons.prems(4), of acc]
      obtain acc' s1' s2' where
        r: "analyzeEntities config now event rest acc s1 = (Inr acc', s1')"
           "analyzeEntities config now event (otherEntities u rest) acc s2 = (Inr acc', s2')"
           "\<forall>k. k \<noteq> u \<longrightarrow> baselines s1' k = baselines s2' k"
           "(\<exists>t. baselines s1 u = Some (freshBaseline now u t)) \<or> (\<exists>ke \<in> set rest. e_id (snd ke) = u)
              \<longrightarrow> (\<exists>t. baselines s1' u = Some (freshBaseline now u t))"
        by blast
      from r(4) fr have keep: "\<exists>t. baselines s1' u = Some (freshBaseline now u t)" by blast
      from step o r(1) r(2) r(3) keep show ?thesis
        by (intro exI[of _ acc'] exI[of _ s1'] exI[of _ s2']) auto
    qed
  next
    case False
    have o: "otherEntities u (ke # rest) = ke # otherEntities u rest"
      using False by (simp add: otherEntities_def ke)
    have same: "baselines s1 (e_id e) = baselines s2 (e_id e)" using Cons.prems(3) False by simp
    show ?thesis
    proof (cases "baselines s1 (e_id e)")
      case None
      let ?s1 = "s1\<lparr>baselines := (baselines s1)(e_id e \<mapsto> freshBaseline now (e_id e) (e_type e))\<rparr>"
      let ?s2 = "s2\<lparr>baselines := (baselines s2)(e_id e \<mapsto> freshBaseline now (e_id e) (e_type e))\<rparr>"
      have step1: "analyzeEntities config now event (ke # rest) acc s1
                    = analyzeEntities config now event rest acc ?s1"
        using None Cons.prems(1) by (simp add: ke acc analyzeEntityBehavior_cold noAnomalies_def)
      have step2: "analyzeEntities config now event (ke # otherEntities u rest) acc s2
                    = analyzeEntities config now event (otherEntities u rest) acc ?s2"
        using None same Cons.prems(2) by (simp add: ke acc analyzeEntityBehavior_cold noAnomalies_def)
      have c1: "db_isConnected ?s1" "db_isConnected ?s2" using Cons.prems(1) Cons.prems(2) by simp_all
      have e1: "\<forall>k. k \<noteq> u \<longrightarrow> baselines ?s1 k = baselines ?s2 k"
        using Cons.prems(3) by simp
      have f1: "baselines ?s1 u = None \<or> (\<exists>t. baselines ?s1 u = Some (freshBaseline now u t))"
        using Cons.prems(4) False by simp
      from Cons.IH[OF c1 e1 f1, of acc] obtain acc' s1' s2' where
        r: "analyzeEntities config now event rest acc ?s1 = (Inr acc', s1')"
           "analyzeEntities config now event (otherEntities u rest) acc ?s2 = (Inr acc', s2')"
           "\<forall>k. k \<noteq> u \<longrightarrow> baselines s1' k = baselines s2' k"
           "(\<exists>t. baselines ?s1 u = Some (freshBaseline now u t)) \<or> (\<exists>ke \<in> set rest. e_id (snd ke) = u)
              \<longrightarrow> (\<exists>t. baselines s1' u = Some (freshBaseline now u t))"
        by blast
      have u1: "baselines ?s1 u = baselines s1 u" using False by simp
      from step1 step2 o r(1) r(2) r(3) r(4)[unfolded u1] False show ?thesis
        by (intro exI[of _ acc'] exI[of _ s1'] exI[of _ s2']) (auto simp add: ke)
    next
      case (Some b)
      with same have b2: "baselines s2 (e_id e) = Some b" by simp
      from analyzeEntityBehavior_known[OF Some b2, of config now event] obtain ea where
        a: "analyzeEntityBehavior config now e event s1 = (Inr ea, s1)"
           "analyzeEntityBehavior config now e event s2 = (Inr ea, s2)"
        by (metis prod.collapse)
      let ?acc = "if length (ea_anomalies ea) > 0
                  then (an @ ea_anomalies ea, r + ea_riskScore ea, c + ea_confidence ea, n + 1)
                  else (an, r, c, n)"
      have step1: "analyzeEntities config now event (ke # rest) acc s1
                    = analyzeEntities config now event rest ?acc s1"
        by (simp add: ke acc a)
      have step2: "analyzeEntities config now event (ke # otherEntities u rest) acc s2
                    = analyzeEntities config now event (otherEntities u rest) ?acc s2"
        by (simp add: ke acc a)
      from Cons.IH[OF Cons.prems(1) Cons.prems(2) Cons.prems(3) Cons.prems(4), of ?acc]
      obtain acc' s1' s2' where
        r: "analyzeEntities config now event rest ?acc s1 = (Inr acc', s1')"
           "analyzeEntities config now event (otherEntities u rest) ?acc s2 = (Inr acc', s2')"
           "\<forall>k. k \<noteq> u \<longrightarrow> baselines s1' k = baselines s2' k"
           "(\<exists>t. baselines s1 u = Some (freshBaseline now u t)) \<or> (\<exists>ke \<in> set rest. e_id (snd ke) = u)
              \<longrightarrow> (\<exists>t. baselines s1' u = Some (freshBaseline now u t))"
        by blast
      from step1 step2 o r False show ?thesis
        by (intro exI[of _ acc'] exI[of _ s1'] exI[of _ s2']) (auto simp add: ke)
    qed
  qed
qed


lemma references_member:
  "0 < references event u \<longleftrightarrow> (\<exists>ke \<in> set (entityEntries event). e_id (snd ke) = u)"
proof -
  have "references event u = 0 \<longleftrightarrow> u \<notin> set (map (\<lambda>ke. e_id (snd ke)) (entityEntries event))"
    unfolding references_def by (rule count_list_0_iff)
  then show ?thesis by auto
qed

lemma analyzeEvent_skip:
  assumes "0 \<le> anomalyThreshold config" "ba_isInitialized s" "db_isConnected s"
    "baselines s u = None" "0 < references event u"
  shows "\<exists>r s' acc s''. analyzeEvent config now event s = (Inr r, s')
           \<and> analyzeEntities config now event (otherEntities u (entityEntries event)) ([], 0, 0, 0) s
               = (Inr acc, s'')
           \<and> (br_anomalies r, br_riskScore r, br_confidence r) = scoresOf acc
           \<and> (\<exists>t. baselines s' u = Some (freshBaseline now u t))"
proof -
  from assms(5) have m: "\<exists>ke \<in> set (entityEntries event). e_id (snd ke) = u"
    by (simp add: references_member)
  have e: "\<forall>k. k \<noteq> u \<longrightarrow> baselines s k = baselines s k" by simp
  have n: "baselines s u = None \<or> (\<exists>t. baselines s u = Some (freshBaseline now u t))"
    using assms(4) by simp
  from analyzeEntities_skip[where ents = "entityEntries event" and acc = "([], 0, 0, 0)"
      and event = event, OF assms(1) assms(3) assms(3) e n] m
  obtain acc s1 s2 where
    r: "analyzeEntities config now event (entityEntries event) ([], 0, 0, 0) s = (Inr acc, s1)"
       "analyzeEntities config now event (otherEntities u (entityEntries event)) ([], 0, 0, 0) s = (Inr acc, s2)"
       "\<exists>t. baselines s1 u = Some (freshBaseline now u t)"
    by blast
  obtain an rs cf cnt where acc: "acc = (an, rs, cf, cnt)" by (cases acc) auto
  let ?r = "\<lparr>br_anomalies = an,
             br_riskScore = (if cnt > 0 then rs / real cnt else 0),
             br_confidence = (if cnt > 0 then cf / real cnt else 0),
             br_baselineComparison = generateBaselineComparison config event an s1,
             br_recommendations = generateRecommendations_behavioral an
                                    (generateBaselineComparison config event an s1)\<rparr>"
  have a: "analyzeEvent config now event s = (Inr ?r, s1)"
    using assms(2) r(1) by (simp add: analyzeEvent_def Let_def acc)
  have sc: "(br_anomalies ?r, br_riskScore ?r, br_confidence ?r) = scoresOf acc"
    by (simp add: scoresOf_def acc)
  from a r(2) sc r(3) show ?thesis
    by (intro exI[of _ ?r] exI[of _ s1] exI[of _ acc] exI[of _ s2]) simp
qed

text \<open>
  Claim C5, under the condition that the write succeeds. For an entity that has no
  baseline, \<^verbatim>\<open>analyzeEntityBehavior\<close> files a baseline for it with the initial patterns
  and confidence 0.1, whether or not the write of that baseline to the database
  succeeds; when the write succeeds it returns the analysis with no anomalies, risk
  score 0 and confidence 0, and it returns nothing else.
  On an initialized engine with the database connected and a threshold that is not
  negative: for an event all of whose entities are unknown, \<^verbatim>\<open>analyzeEvent\<close> returns no
  anomalies, risk score 0 and confidence 0, and every entity of the event has a baseline
  of confidence 0.1 afterwards; and for any event that refers to an entity without a
  baseline, among entities of any kind, \<^verbatim>\<open>analyzeEvent\<close> returns the anomalies, the risk
  score and the confidence that the references to the other entities give alone, and the
  entity has a baseline with the initial patterns and confidence 0.1 afterwards.
\<close>

theorem cold_start:
  "(baselines s (e_id entity) = None \<longrightarrow>
      baselines (snd (analyzeEntityBehavior config now entity event s)) (e_id entity)
        = Some (freshBaseline now (e_id entity) (e_type entity))
      \<and> confidence (freshBaseline now (e_id entity) (e_type entity)) = 0.1
      \<and> (db_isConnected s \<longrightarrow> fst (analyzeEntityBehavior config now entity event s) = Inr noAnomalies)
      \<and> (\<forall>ea. fst (analyzeEntityBehavior config now entity event s) = Inr ea \<longrightarrow> ea = noAnomalies)
      \<and> ea_anomalies noAnomalies = [] \<and> ea_riskScore noAnomalies = 0 \<and> ea_confidence noAnomalies = 0)
   \<and> (0 \<le> anomalyThreshold config \<and> ba_isInitialized s \<and> db_isConnected s \<and> unknownEntities event s \<longrightarrow>
        (\<exists>r s'. analyzeEvent config now event s = (Inr r, s')
           \<and> br_anomalies r = [] \<and> br_riskScore r = 0 \<and> br_confidence r = 0
           \<and> (\<forall>ke \<in> set (entityEntries event).
                 \<exists>b. baselines s' (e_id (snd ke)) = Some b \<and> confidence b = 0.1)))
   \<and> (0 \<le> anomalyThreshold config \<and> ba_isInitialized s \<and> db_isConnected s
        \<and> baselines s u = None \<and> 0 < references event u \<longrightarrow>
        (\<exists>r s' acc s''. analyzeEvent config now event s = (Inr r, s')
           \<and> analyzeEntities config now event (otherEntities u (entityEntries event)) ([], 0, 0, 0) s
               = (Inr acc, s'')
           \<and> (br_anomalies r, br_riskScore r, br_confidence r) = scoresOf acc
           \<and> (\<exists>b. baselines s' u = Some b \<and> patterns b = initializePatterns \<and> confidence b = 0.1)))"
proof (intro conjI impI)
  assume n: "baselines s (e_id entity) = None"
  show "baselines (snd (analyzeEntityBehavior config now entity event s)) (e_id entity)
        = Some (freshBaseline now (e_id entity) (e_type entity))"
    using n by (simp add: analyzeEntityBehavior_cold)
  show "confidence (freshBaseline now (e_id entity) (e_type entity)) = 0.1"
    by (simp add: freshBaseline_def)
  show "fst (analyzeEntityBehavior config now entity event s) = Inr noAnomalies" if "db_isConnected s"
    using n that by (simp add: analyzeEntityBehavior_cold)
  show "\<forall>ea. fst (analyzeEntityBehavior config now entity event s) = Inr ea \<longrightarrow> ea = noAnomalies"
    using n by (simp add: analyzeEntityBehavior_cold)
  show "ea_anomalies noAnomalies = []" "ea_riskScore noAnomalies = 0" "ea_confidence noAnomalies = 0"
    by (simp_all add: noAnomalies_def)
next
  assume h: "0 \<le> anomalyThreshold config \<and> ba_isInitialized s \<and> db_isConnected s \<and> unknownEntities event s"
  then obtain r s' where
    r: "analyzeEvent config now event s = (Inr r, s')"
       "br_anomalies r = []" "br_riskScore r = 0" "br_confidence r = 0"
       "\<forall>ke \<in> set (entityEntries event).
                 \<exists>t. baselines s' (e_id (snd ke)) = Some (freshBaseline now (e_id (snd ke)) t)"
    using analyzeEvent_cold[of config s event now] by blast
  have "\<forall>ke \<in> set (entityEntries event). \<exists>b. baselines s' (e_id (snd ke)) = Some b \<and> confidence b = 0.1"
  proof
    fix ke assume "ke \<in> set (entityEntries event)"
    with r(5) obtain t where "baselines s' (e_id (snd ke)) = Some (freshBaseline now (e_id (snd ke)) t)"
      by blast
    then show "\<exists>b. baselines s' (e_id (snd ke)) = Some b \<and> confidence b = 0.1"
      by (simp add: freshBaseline_def)
  qed
  with r show "\<exists>r s'. analyzeEvent config now event s = (Inr r, s')
           \<and> br_anomalies r = [] \<and> br_riskScore r = 0 \<and> br_confidence r = 0
           \<and> (\<forall>ke \<in> set (entityEntries event).
                 \<exists>b. baselines s' (e_id (snd ke)) = Some b \<and> confidence b = 0.1)"
    by blast
next
  assume h: "0 \<le> anomalyThreshold config \<and> ba_isInitialized s \<and> db_isConnected s
        \<and> baselines s u = None \<and> 0 < references event u"
  then obtain r s' acc s'' t where
    r: "analyzeEvent config now event s = (Inr r, s')"
       "analyzeEntities config now event (otherEntities u (entityEntries event)) ([], 0, 0, 0) s
          = (Inr acc, s'')"
       "(br_anomalies r, br_riskScore r, br_confidence r) = scoresOf acc"
       "baselines s' u = Some (freshBaseline now u t)"
    using analyzeEvent_skip[of config s u event now] by blast
  from r(4) have "\<exists>b. baselines s' u = Some b \<and> patterns b = initializePatterns \<and> confidence b = 0.1"
    by (simp add: freshBaseline_def)
  with r(1) r(2) r(3) show "\<exists>r s' acc s''. analyzeEvent config now event s = (Inr r, s')
           \<and> analyzeEntities config now event (otherEntities u (entityEntries event)) ([], 0, 0, 0) s
               = (Inr acc, s'')
           \<and> (br_anomalies r, br_riskScore r, br_confidence r) = scoresOf acc
           \<and> (\<exists>b. baselines s' u = Some b \<and> patterns b = initializePatterns \<and> confidence b = 0.1)"
    by (intro exI[of _ r] exI[of _ s'] exI[of _ acc] exI[of _ s'']) simp
qed


lemma ex_entries:
  "entityEntries ex_event
     = [(''users'', ex_user ''u1''), (''users'', ex_user ''u2''), (''users'', ex_user ''u3''),
        (''users'', ex_user ''u4''), (''users'', ex_user ''u5'')]"
  by (simp add: entityEntries_def Object_entries_def ex_event_def)

lemma ex_known_user:
  "baselines s ''u1'' = Some ex_baseline \<Longrightarrow>
     \<exists>ea. analyzeEntityBehavior ex_config ex_date (ex_user ''u1'') ex_event s = (Inr ea, s)
        \<and> length (ea_anomalies ea) = 1"
  by (simp add: analyzeEntityBehavior_def ex_user_def ex_baseline_def ex_pattern_def analyzePattern_def
      extractPatternValue_def ex_event_def ex_config_def Let_def)

text \<open>The event with five unknown users on an engine with an empty store, and the same
  event on an engine that knows the first of them: the second user contributes nothing
  to the one anomaly of the result.\<close>

theorem cold_start_witness:
  "baselines (snd (analyzeEntityBehavior ex_config ex_date (ex_user ''u1'') ex_event ex_new_engine)) ''u1''
      = Some (freshBaseline ex_date ''u1'' ''user'')
   \<and> confidence (freshBaseline ex_date ''u1'' ''user'') = 1 / 10
   \<and> fst (analyzeEntityBehavior ex_config ex_date (ex_user ''u1'') ex_event ex_new_engine) = Inr noAnomalies
   \<and> (\<exists>r s'. analyzeEvent ex_config ex_date ex_event ex_new_engine = (Inr r, s')
           \<and> br_anomalies r = [] \<and> br_riskScore r = 0 \<and> br_confidence r = 0
           \<and> (\<exists>b. baselines s' ''u3'' = Some b \<and> confidence b = 1 / 10))
   \<and> (\<exists>r s'. analyzeEvent ex_config ex_date ex_event ex_engine = (Inr r, s')
           \<and> length (br_anomalies r) = 1
           \<and> (\<exists>b. baselines s' ''u2'' = Some b \<and> confidence b = 1 / 10))"
proof -
  have n: "baselines ex_new_engine (e_id (ex_user ''u1'')) = None" by (simp add: ex_new_engine_def)
  have c: "db_isConnected ex_new_engine" "ba_isInitialized ex_new_engine"
    by (simp_all add: ex_new_engine_def)
  have t: "0 \<le> anomalyThreshold ex_config" by (simp add: ex_config_def)
  have u: "unknownEntities ex_event ex_new_engine" by (simp add: unknownEntities_def ex_new_engine_def)
  have m: "(''users'', ex_user ''u3'') \<in> set (entityEntries ex_event)"
    by (simp add: ex_entries)
  note cs = cold_start[of ex_new_engine "ex_user ''u1''" ex_config ex_date ex_event]
  from cs n c have 1:
    "baselines (snd (analyzeEntityBehavior ex_config ex_date (ex_user ''u1'') ex_event ex_new_engine)) ''u1''
      = Some (freshBaseline ex_date ''u1'' ''user'')"
    "confidence (freshBaseline ex_date ''u1'' ''user'') = 1 / 10"
    "fst (analyzeEntityBehavior ex_config ex_date (ex_user ''u1'') ex_event ex_new_engine) = Inr noAnomalies"
    by (simp_all add: ex_user_def)
  from cs t c u obtain r s' where
    r: "analyzeEvent ex_config ex_date ex_event ex_new_engine = (Inr r, s')"
       "br_anomalies r = []" "br_riskScore r = 0" "br_confidence r = 0"
       "\<forall>ke \<in> set (entityEntries ex_event). \<exists>b. baselines s' (e_id (snd ke)) = Some b \<and> confidence b = 0.1"
    by blast
  from r(5) m have 2: "\<exists>b. baselines s' ''u3'' = Some b \<and> confidence b = 1 / 10"
    by (force simp add: ex_user_def)
  have k: "db_isConnected ex_engine" "ba_isInitialized ex_engine" "baselines ex_engine ''u2'' = None"
    by (simp_all add: ex_engine_def)
  have f: "0 < references ex_event ''u2''"
    by (simp add: references_def ex_entries ex_user_def)
  note cm = cold_start[of ex_engine "ex_user ''u1''" ex_config ex_date ex_event "''u2''"]
  from cm t k f obtain r2 s2 acc s3 where
    r2: "analyzeEvent ex_config ex_date ex_event ex_engine = (Inr r2, s2)"
        "analyzeEntities ex_config ex_date ex_event (otherEntities ''u2'' (entityEntries ex_event))
           ([], 0, 0, 0) ex_engine = (Inr acc, s3)"
        "(br_anomalies r2, br_riskScore r2, br_confidence r2) = scoresOf acc"
        "\<exists>b. baselines s2 ''u2'' = Some b \<and> patterns b = initializePatterns \<and> confidence b = 0.1"
    by blast
  have o: "otherEntities ''u2'' (entityEntries ex_event)
             = [(''users'', ex_user ''u1''), (''users'', ex_user ''u3''),
                (''users'', ex_user ''u4''), (''users'', ex_user ''u5'')]"
    by (simp add: otherEntities_def ex_entries ex_user_def)
  have b1: "baselines ex_engine ''u1'' = Some ex_baseline" by (simp add: ex_engine_def)
  from ex_known_user[OF b1] obtain ea where
    ea: "analyzeEntityBehavior ex_config ex_date (ex_user ''u1'') ex_event ex_engine = (Inr ea, ex_engine)"
        "length (ea_anomalies ea) = 1"
    by blast
  have i: "\<forall>ke \<in> set [(''users'', ex_user ''u3''), (''users'', ex_user ''u4''), (''users'', ex_user ''u5'')].
             baselines ex_engine (e_id (snd ke)) = None
             \<or> (\<exists>b. baselines ex_engine (e_id (snd ke)) = Some b \<and> patterns b = initializePatterns)"
    by (simp add: ex_engine_def ex_user_def)
  from analyzeEntities_cold[OF t k(1) i, of ex_date ex_event
      "(ea_anomalies ea, ea_riskScore ea, ea_confidence ea, 1)"]
  obtain s4 where
    "analyzeEntities ex_config ex_date ex_event
       [(''users'', ex_user ''u3''), (''users'', ex_user ''u4''), (''users'', ex_user ''u5'')]
       (ea_anomalies ea, ea_riskScore ea, ea_confidence ea, 1) ex_engine
       = (Inr (ea_anomalies ea, ea_riskScore ea, ea_confidence ea, 1), s4)"
    by blast
  with ea r2(2) have "acc = (ea_anomalies ea, ea_riskScore ea, ea_confidence ea, 1)"
    by (simp add: o)
  with r2(3) ea(2) have 3: "length (br_anomalies r2) = 1" by (simp add: scoresOf_def)
  from r2(4) have 4: "\<exists>b. baselines s2 ''u2'' = Some b \<and> confidence b = 1 / 10" by auto
  from 1 r 2 r2(1) 3 4 show ?thesis by blast
qed

text \<open>The claim as it is stated fails when the write of the new baseline fails: with the
  database not connected, \<^verbatim>\<open>analyzeEvent\<close> of an event that refers to an unknown entity
  rejects, although the baseline has been filed.\<close>

theorem cold_start_write_fails:
  "ba_isInitialized ex_offline_engine
   \<and> baselines ex_offline_engine ''u1'' = None
   \<and> 0 < references ex_event ''u1''
   \<and> analyzeEntityBehavior ex_config ex_date (ex_user ''u1'') ex_event ex_offline_engine
       = (Inl DatabaseNotConnected,
          ex_offline_engine\<lparr>baselines := [''u1'' \<mapsto> freshBaseline ex_date ''u1'' ''user'']\<rparr>)
   \<and> analyzeEvent ex_config ex_date ex_event ex_offline_engine
       = (Inl DatabaseNotConnected,
          ex_offline_engine\<lparr>baselines := [''u1'' \<mapsto> freshBaseline ex_date ''u1'' ''user'']\<rparr>)"
proof -
  have n: "baselines ex_offline_engine (e_id (ex_user ''u1'')) = None"
    by (simp add: ex_offline_engine_def)
  have a: "analyzeEntityBehavior ex_config ex_date (ex_user ''u1'') ex_event ex_offline_engine
       = (Inl DatabaseNotConnected,
          ex_offline_engine\<lparr>baselines := [''u1'' \<mapsto> freshBaseline ex_date ''u1'' ''user'']\<rparr>)"
    using analyzeEntityBehavior_cold[OF n, of ex_config ex_date ex_event]
    by (simp add: ex_offline_engine_def ex_user_def)
  have e: "analyzeEvent ex_config ex_date ex_event ex_offline_engine
       = (Inl DatabaseNotConnected,
          ex_offline_engine\<lparr>baselines := [''u1'' \<mapsto> freshBaseline ex_date ''u1'' ''user'']\<rparr>)"
    using a by (simp add: analyzeEvent_def ex_entries ex_offline_engine_def)
  have f: "0 < references ex_event ''u1''"
    by (simp add: references_def ex_entries ex_user_def)
  from a e f show ?thesis by (simp add: ex_offline_engine_def)
qed

subsection \<open>Connected components\<close>

text \<open>A traversal appends to the component exactly the nodes it adds to the visited set,
  each once.\<close>

lemma dfs_shape:
  "entity \<notin> fst st \<Longrightarrow>
     \<exists>new. snd (dfs entity graph st) = snd st @ entity # new
         \<and> fst (dfs entity graph st) = fst st \<union> set (entity # new)
         \<and> distinct (entity # new) \<and> set (entity # new) \<inter> fst st = {}"
  and dfs_neighbors_shape:
  "\<exists>new. snd (dfs_neighbors ns graph st) = snd st @ new
         \<and> fst (dfs_neighbors ns graph st) = fst st \<union> set new
         \<and> distinct new \<and> set new \<inter> fst st = {}"
proof (induction entity graph st and ns graph st rule: dfs_dfs_neighbors.induct)
  case (1 entity graph visited component)
  from "1.prems" have nv: "entity \<notin> visited" by simp
  from "1.IH" obtain new where
    n: "snd (dfs_neighbors (neighborsOf graph entity) graph (insert entity visited, component @ [entity]))
          = (component @ [entity]) @ new"
       "fst (dfs_neighbors (neighborsOf graph entity) graph (insert entity visited, component @ [entity]))
          = insert entity visited \<union> set new"
       "distinct new" "set new \<inter> insert entity visited = {}"
    by auto
  show ?case
    using n nv by (intro exI[of _ new]) auto
next
  case (2 graph st)
  show ?case by (intro exI[of _ "[]"]) simp
next
  case (3 neighbor rest graph visited component)
  show ?case
  proof (cases "neighbor \<in> visited")
    case True
    with 3 show ?thesis by simp
  next
    case False
    obtain V1 C1 where r: "dfs neighbor graph (visited, component) = (V1, C1)"
      by (cases "dfs neighbor graph (visited, component)")
    from 3(1)[OF False] False r obtain new1 where
      a: "C1 = component @ neighbor # new1" "V1 = visited \<union> set (neighbor # new1)"
         "distinct (neighbor # new1)" "set (neighbor # new1) \<inter> visited = {}"
      by auto
    from 3(2)[OF False] r obtain new2 where
      b: "snd (dfs_neighbors rest graph (V1, C1)) = C1 @ new2"
         "fst (dfs_neighbors rest graph (V1, C1)) = V1 \<union> set new2"
         "distinct new2" "set new2 \<inter> V1 = {}"
      by auto
    show ?thesis
      using a b False r by (intro exI[of _ "neighbor # new1 @ new2"]) auto
  qed
qed

lemma dfs_mono: "fst st \<subseteq> fst (dfs entity graph st)"
  and dfs_neighbors_mono: "fst st \<subseteq> fst (dfs_neighbors ns graph st)"
proof (induction entity graph st and ns graph st rule: dfs_dfs_neighbors.induct)
  case (1 entity graph visited component)
  then show ?case by auto
next
  case (2 graph st)
  show ?case by simp
next
  case (3 neighbor rest graph visited component)
  then show ?case by (cases "dfs neighbor graph (visited, component)") auto
qed

lemma dfs_visits_start: "entity \<in> fst (dfs entity graph st)"
proof (cases st)
  case (Pair visited component)
  have "insert entity visited
          \<subseteq> fst (dfs_neighbors (neighborsOf graph entity) graph (insert entity visited, component @ [entity]))"
    using dfs_neighbors_mono[of "(insert entity visited, component @ [entity])"] by simp
  then show ?thesis using Pair by auto
qed

lemma dfs_reach:
  "\<forall>x \<in> fst (dfs entity graph st) - fst st. (entity, x) \<in> (adjRel graph)\<^sup>*"
  and dfs_neighbors_reach:
  "\<forall>x \<in> fst (dfs_neighbors ns graph st) - fst st. \<exists>n \<in> set ns. (n, x) \<in> (adjRel graph)\<^sup>*"
proof (induction entity graph st and ns graph st rule: dfs_dfs_neighbors.induct)
  case (1 entity graph visited component)
  show ?case
  proof
    fix x
    assume x: "x \<in> fst (dfs entity graph (visited, component)) - fst (visited, component)"
    show "(entity, x) \<in> (adjRel graph)\<^sup>*"
    proof (cases "x = entity")
      case True
      then show ?thesis by simp
    next
      case False
      with x have "x \<in> fst (dfs_neighbors (neighborsOf graph entity) graph
                               (insert entity visited, component @ [entity]))
                          - fst (insert entity visited, component @ [entity])"
        by simp
      with "1.IH" obtain n where n: "n \<in> set (neighborsOf graph entity)" "(n, x) \<in> (adjRel graph)\<^sup>*"
        by blast
      from n(1) have "(entity, n) \<in> adjRel graph" by (simp add: adjRel_def)
      then show ?thesis using n(2) by (rule converse_rtrancl_into_rtrancl)
    qed
  qed
next
  case (2 graph st)
  show ?case by simp
next
  case (3 neighbor rest graph visited component)
  show ?case
  proof (cases "neighbor \<in> visited")
    case True
    with "3.IH"(3) show ?thesis by auto
  next
    case False
    obtain V1 C1 where r: "dfs neighbor graph (visited, component) = (V1, C1)"
      by (cases "dfs neighbor graph (visited, component)")
    show ?thesis
    proof
      fix x
      assume "x \<in> fst (dfs_neighbors (neighbor # rest) graph (visited, component)) - fst (visited, component)"
      with False r have x: "x \<in> fst (dfs_neighbors rest graph (V1, C1))" "x \<notin> visited" by auto
      show "\<exists>n \<in> set (neighbor # rest). (n, x) \<in> (adjRel graph)\<^sup>*"
      proof (cases "x \<in> V1")
        case True
        with "3.IH"(1)[OF False] r x(2) have "(neighbor, x) \<in> (adjRel graph)\<^sup>*" by auto
        then show ?thesis by auto
      next
        case False
        with "3.IH"(2)[OF \<open>neighbor \<notin> visited\<close>] r x(1)
        obtain n where "n \<in> set rest" "(n, x) \<in> (adjRel graph)\<^sup>*" by auto
        then show ?thesis by auto
      qed
    qed
  qed
qed

lemma dfs_closure:
  "\<forall>x \<in> fst (dfs entity graph st) - fst st. set (neighborsOf graph x) \<subseteq> fst (dfs entity graph st)"
  and dfs_neighbors_closure:
  "set ns \<subseteq> fst (dfs_neighbors ns graph st)
   \<and> (\<forall>x \<in> fst (dfs_neighbors ns graph st) - fst st.
         set (neighborsOf graph x) \<subseteq> fst (dfs_neighbors ns graph st))"
proof (induction entity graph st and ns graph st rule: dfs_dfs_neighbors.induct)
  case (1 entity graph visited component)
  then show ?case by auto
next
  case (2 graph st)
  show ?case by simp
next
  case (3 neighbor rest graph visited component)
  show ?case
  proof (cases "neighbor \<in> visited")
    case True
    have "visited \<subseteq> fst (dfs_neighbors rest graph (visited, component))"
      using dfs_neighbors_mono[of "(visited, component)" rest graph] by simp
    with True "3.IH"(3) show ?thesis by auto
  next
    case False
    obtain V1 C1 where r: "dfs neighbor graph (visited, component) = (V1, C1)"
      by (cases "dfs neighbor graph (visited, component)")
    let ?V' = "fst (dfs_neighbors rest graph (V1, C1))"
    have m: "V1 \<subseteq> ?V'"
      using dfs_neighbors_mono[of "(V1, C1)" rest graph] by simp
    have s: "neighbor \<in> V1"
      using dfs_visits_start[of neighbor graph "(visited, component)"] r by simp
    have a: "\<forall>x \<in> V1 - visited. set (neighborsOf graph x) \<subseteq> V1"
      using "3.IH"(1)[OF False] r by simp
    have b: "set rest \<subseteq> ?V'" "\<forall>x \<in> ?V' - V1. set (neighborsOf graph x) \<subseteq> ?V'"
      using "3.IH"(2)[OF False] r by simp_all
    have "set (neighbor # rest) \<subseteq> ?V'" using b(1) m s by auto
    moreover have "\<forall>x \<in> ?V' - visited. set (neighborsOf graph x) \<subseteq> ?V'"
    proof
      fix x assume x: "x \<in> ?V' - visited"
      show "set (neighborsOf graph x) \<subseteq> ?V'"
      proof (cases "x \<in> V1")
        case True
        with x a have "set (neighborsOf graph x) \<subseteq> V1" by auto
        with m show ?thesis by auto
      next
        case False
        with x b(2) show ?thesis by auto
      qed
    qed
    ultimately show ?thesis using False r by simp
  qed
qed

lemma sym_rtrancl_flip:
  assumes "sym R" "(a, b) \<in> R\<^sup>*"
  shows "(b, a) \<in> R\<^sup>*"
proof -
  from assms(2) have "(b, a) \<in> (R\<inverse>)\<^sup>*" by (simp add: rtrancl_converse)
  moreover from assms(1) have "R\<inverse> = R" by (auto simp add: sym_def)
  ultimately show ?thesis by simp
qed

text \<open>One top-level traversal from an unvisited key, over a visited set that is closed
  under adjacency, adds exactly the nodes reachable from the key.\<close>

lemma dfs_component:
  assumes sym: "sym (adjRel graph)" and cl: "closedUnder graph V" and nv: "entity \<notin> V"
    and r: "dfs entity graph (V, []) = (V', component)"
  shows "set component = {y. (entity, y) \<in> (adjRel graph)\<^sup>*}"
    and "V' = V \<union> set component" and "distinct component" and "set component \<inter> V = {}"
    and "closedUnder graph V'" and "component \<noteq> []"
proof -
  from dfs_shape[of entity "(V, [])" graph] nv r obtain new where
    sh: "component = entity # new" "V' = V \<union> set (entity # new)" "distinct (entity # new)"
        "set (entity # new) \<inter> V = {}"
    by auto
  show "V' = V \<union> set component" "distinct component" "set component \<inter> V = {}" "component \<noteq> []"
    using sh by auto
  have new: "set component = V' - V" using sh by auto
  have clos: "\<forall>x \<in> V' - V. set (neighborsOf graph x) \<subseteq> V'"
    using dfs_closure(1)[of entity graph "(V, [])"] r by simp
  show "closedUnder graph V'"
    unfolding closedUnder_def
  proof
    fix x assume "x \<in> V'"
    show "set (neighborsOf graph x) \<subseteq> V'"
    proof (cases "x \<in> V")
      case True
      with cl have "set (neighborsOf graph x) \<subseteq> V" by (simp add: closedUnder_def)
      with sh(2) show ?thesis by auto
    next
      case False
      with \<open>x \<in> V'\<close> clos show ?thesis by auto
    qed
  qed
  have step: "z \<in> V' - V" if y: "y \<in> V' - V" and yz: "(y, z) \<in> adjRel graph" for y z
  proof -
    from yz have "z \<in> set (neighborsOf graph y)" by (simp add: adjRel_def)
    with clos y have zV': "z \<in> V'" by auto
    have "z \<notin> V"
    proof
      assume zV: "z \<in> V"
      from sym yz have "(z, y) \<in> adjRel graph" by (simp add: sym_def)
      then have "y \<in> set (neighborsOf graph z)" by (simp add: adjRel_def)
      with cl zV have "y \<in> V" by (auto simp add: closedUnder_def)
      with y show False by simp
    qed
    with zV' show ?thesis by simp
  qed
  have fwd: "y \<in> V' - V" if "(entity, y) \<in> (adjRel graph)\<^sup>*" for y
    using that
  proof (induction rule: rtrancl_induct)
    case base
    show ?case using sh nv by auto
  next
    case (step y z)
    from step.IH step.hyps(2) show ?case by (rule \<open>\<And>y z. \<lbrakk>y \<in> V' - V; (y, z) \<in> adjRel graph\<rbrakk> \<Longrightarrow> z \<in> V' - V\<close>)
  qed
  have bwd: "(entity, y) \<in> (adjRel graph)\<^sup>*" if "y \<in> V' - V" for y
    using dfs_reach(1)[of entity graph "(V, [])"] r that by simp
  show "set component = {y. (entity, y) \<in> (adjRel graph)\<^sup>*}"
  proof (rule set_eqI)
    fix y
    show "y \<in> set component \<longleftrightarrow> y \<in> {y. (entity, y) \<in> (adjRel graph)\<^sup>*}"
      using fwd[of y] bwd[of y] new by blast
  qed
qed

lemma reach_class:
  assumes "sym R" "(e, x) \<in> R\<^sup>*"
  shows "{y. (x, y) \<in> R\<^sup>*} = {y. (e, y) \<in> R\<^sup>*}"
proof -
  from assms have xe: "(x, e) \<in> R\<^sup>*" by (rule sym_rtrancl_flip)
  show ?thesis
  proof (rule set_eqI)
    fix y
    show "y \<in> {y. (x, y) \<in> R\<^sup>*} \<longleftrightarrow> y \<in> {y. (e, y) \<in> R\<^sup>*}"
      using assms(2) xe by (auto intro: rtrancl_trans)
  qed
qed

lemma reach_within:
  assumes "R \<subseteq> N \<times> N" "e \<in> N" "(e, y) \<in> R\<^sup>*"
  shows "y \<in> N"
  using assms(3)
proof (induction rule: rtrancl_induct)
  case base
  show ?case by (rule assms(2))
next
  case (step y z)
  with assms(1) show ?case by auto
qed

lemma componentsLoop_inv:
  assumes sym: "sym (adjRel graph)" and within: "adjRel graph \<subseteq> N \<times> N"
  shows "closedUnder graph V \<Longrightarrow> componentsOK graph V components \<Longrightarrow> V \<subseteq> N \<Longrightarrow> set ks \<subseteq> N
     \<Longrightarrow> componentsLoop graph ks (V, components) = (V', components')
     \<Longrightarrow> closedUnder graph V' \<and> componentsOK graph V' components' \<and> V \<union> set ks \<subseteq> V' \<and> V' \<subseteq> N"
proof (induction ks arbitrary: V components)
  case Nil
  then show ?case by simp
next
  case (Cons entity rest)
  from Cons.prems(4) have restN: "set rest \<subseteq> N" and eN: "entity \<in> N" by simp_all
  show ?case
  proof (cases "entity \<in> V")
    case True
    with Cons.prems(5) have r: "componentsLoop graph rest (V, components) = (V', components')" by simp
    from Cons.IH[OF Cons.prems(1) Cons.prems(2) Cons.prems(3) restN r]
    show ?thesis using True by auto
  next
    case False
    obtain V1 c where d: "dfs entity graph (V, []) = (V1, c)"
      by (cases "dfs entity graph (V, [])")
    with False Cons.prems(5)
    have r: "componentsLoop graph rest (V1, components @ [c]) = (V', components')" by simp
    note dc = dfs_component[OF sym Cons.prems(1) False d]
    have reachN: "set c \<subseteq> N"
      using dc(1) reach_within[OF within eN] by auto
    have V1N: "V1 \<subseteq> N" using dc(2) Cons.prems(3) reachN by auto
    have eV1: "entity \<in> V1" using dc(1) dc(2) by auto
    have cls: "\<forall>x \<in> set c. set c = {y. (x, y) \<in> (adjRel graph)\<^sup>*}"
    proof
      fix x assume "x \<in> set c"
      with dc(1) have "(entity, x) \<in> (adjRel graph)\<^sup>*" by simp
      from reach_class[OF sym this] dc(1)
      show "set c = {y. (x, y) \<in> (adjRel graph)\<^sup>*}" by simp
    qed
    from Cons.prems(2) have old:
      "V = \<Union> (set ` set components)" "distinct (concat components)"
      "\<forall>c \<in> set components. c \<noteq> [] \<and> (\<forall>x \<in> set c. set c = {y. (x, y) \<in> (adjRel graph)\<^sup>*})"
      by (simp_all add: componentsOK_def)
    have ok1: "componentsOK graph V1 (components @ [c])"
      unfolding componentsOK_def
    proof (intro conjI)
      show "V1 = \<Union> (set ` set (components @ [c]))"
        using dc(2) old(1) by auto
      show "distinct (concat (components @ [c]))"
        using old(1) old(2) dc(3) dc(4) by auto
      show "\<forall>c \<in> set (components @ [c]). c \<noteq> [] \<and> (\<forall>x \<in> set c. set c = {y. (x, y) \<in> (adjRel graph)\<^sup>*})"
        using old(3) cls dc(6) by auto
    qed
    from Cons.IH[OF dc(5) ok1 V1N restN r]
    have "closedUnder graph V' \<and> componentsOK graph V' components' \<and> V1 \<union> set rest \<subseteq> V' \<and> V' \<subseteq> N" .
    then show ?thesis using eV1 dc(2) by auto
  qed
qed

text \<open>The adjacency map that the loop over the correlations builds has the ends of the
  correlations as its keys and the links as its relation.\<close>

lemma neighborsOf_ensureKey [simp]: "neighborsOf (ensureKey graph k) x = neighborsOf graph x"
proof (cases "map_of graph x")
  case None
  then show ?thesis by (simp add: neighborsOf_def ensureKey_def graph_has_def map_add_def)
next
  case (Some ns)
  then show ?thesis by (simp add: neighborsOf_def ensureKey_def graph_has_def map_add_def)
qed

lemma keys_ensureKey [simp]: "fst ` set (ensureKey graph k) = insert k (fst ` set graph)"
  by (auto simp add: ensureKey_def graph_has_def map_of_eq_None_iff)

lemma keys_addNeighbor [simp]: "map fst (addNeighbor graph k x) = map fst graph"
  by (induction graph) auto

lemma keys_addNeighbor_set [simp]: "fst ` set (addNeighbor graph k x) = fst ` set graph"
proof -
  have "set (map fst (addNeighbor graph k x)) = set (map fst graph)" by simp
  then show ?thesis by (simp only: set_map)
qed

lemma set_set_add [simp]: "set (set_add xs x) = insert x (set xs)"
  by (auto simp add: set_add_def)

lemma map_of_addNeighbor:
  "map_of (addNeighbor graph k x) y =
     (if y = k then map_option (\<lambda>ns. set_add ns x) (map_of graph k) else map_of graph y)"
  by (induction graph k x rule: addNeighbor.induct) auto

lemma neighborsOf_addNeighbor:
  "set (neighborsOf (addNeighbor graph k x) y) =
     (if y = k \<and> k \<in> fst ` set graph then insert x (set (neighborsOf graph k))
      else set (neighborsOf graph y))"
proof (cases "map_of graph k")
  case None
  then have "k \<notin> fst ` set graph" by (simp add: map_of_eq_None_iff)
  with None show ?thesis by (simp add: neighborsOf_def map_of_addNeighbor)
next
  case (Some ns)
  then have "k \<in> fst ` set graph" by (metis map_of_eq_None_iff option.distinct(1))
  with Some show ?thesis by (simp add: neighborsOf_def map_of_addNeighbor)
qed

lemma adjRel_addNeighbor:
  "k \<in> fst ` set graph \<Longrightarrow> adjRel (addNeighbor graph k x) = insert (k, x) (adjRel graph)"
  by (auto simp add: adjRel_def neighborsOf_addNeighbor split: if_splits)

lemma adjRel_ensureKey [simp]: "adjRel (ensureKey graph k) = adjRel graph"
  by (simp add: adjRel_def)

lemma addCorrelation_keys:
  "fst ` set (addCorrelation graph corr) = {sourceEntity corr, targetEntity corr} \<union> fst ` set graph"
  by (auto simp add: addCorrelation_def Let_def)

lemma addCorrelation_adjRel:
  "adjRel (addCorrelation graph corr) =
     {(sourceEntity corr, targetEntity corr), (targetEntity corr, sourceEntity corr)} \<union> adjRel graph"
  by (auto simp add: addCorrelation_def Let_def adjRel_addNeighbor)

lemma buildAdjacency_keys:
  "fst ` set (buildAdjacency correlations graph) = endpoints correlations \<union> fst ` set graph"
  by (induction correlations arbitrary: graph) (auto simp add: endpoints_def addCorrelation_keys)

lemma buildAdjacency_adjRel:
  "adjRel (buildAdjacency correlations graph) = linked correlations \<union> adjRel graph"
  by (induction correlations arbitrary: graph) (auto simp add: linked_def addCorrelation_adjRel)

lemma adjRel_Nil [simp]: "adjRel [] = {}"
  by (simp add: adjRel_def neighborsOf_def)

lemma sym_linked: "sym (linked correlations)"
  by (auto simp add: sym_def linked_def)

lemma linked_within: "linked correlations \<subseteq> endpoints correlations \<times> endpoints correlations"
  by (auto simp add: linked_def endpoints_def)

lemma distinct_concat_index:
  "distinct (concat xss) \<Longrightarrow> i < length xss \<Longrightarrow> j < length xss
     \<Longrightarrow> x \<in> set (xss ! i) \<Longrightarrow> x \<in> set (xss ! j) \<Longrightarrow> i = j"
proof (induction xss arbitrary: i j)
  case Nil
  then show ?case by simp
next
  case (Cons xs xss)
  show ?case
  proof (cases i)
    case 0
    show ?thesis
    proof (cases j)
      case 0
      with \<open>i = 0\<close> show ?thesis by simp
    next
      case (Suc j')
      with 0 Cons.prems have "x \<in> set xs" "x \<in> set (xss ! j')" "j' < length xss" by simp_all
      then have "x \<in> set xs \<inter> \<Union> (set ` set xss)" by auto
      with Cons.prems(1) show ?thesis by auto
    qed
  next
    case (Suc i')
    show ?thesis
    proof (cases j)
      case 0
      with Suc Cons.prems have "x \<in> set xs" "x \<in> set (xss ! i')" "i' < length xss" by simp_all
      then have "x \<in> set xs \<inter> \<Union> (set ` set xss)" by auto
      with Cons.prems(1) show ?thesis by auto
    next
      case (Suc j')
      with \<open>i = Suc i'\<close> Cons.prems Cons.IH[of i' j'] show ?thesis by simp
    qed
  qed
qed

text \<open>The facts about the components that the claims below share.\<close>

lemma findConnectedComponents_props:
  "\<Union> (set ` set (findConnectedComponents correlations)) = endpoints correlations
   \<and> distinct (concat (findConnectedComponents correlations))
   \<and> (\<forall>e \<in> endpoints correlations.
         \<exists>!i. i < length (findConnectedComponents correlations)
              \<and> e \<in> set (findConnectedComponents correlations ! i))
   \<and> (\<forall>c \<in> set (findConnectedComponents correlations).
         c \<noteq> [] \<and> (\<forall>x \<in> set c. set c = {y. (x, y) \<in> (linked correlations)\<^sup>*}))"
proof -
  define graph where "graph = buildAdjacency correlations []"
  obtain V' cs where l: "componentsLoop graph (map fst graph) ({}, []) = (V', cs)"
    by (cases "componentsLoop graph (map fst graph) ({}, [])")
  have f: "findConnectedComponents correlations = cs"
    using l by (simp add: findConnectedComponents_def graph_def)
  have adj: "adjRel graph = linked correlations"
    by (simp add: graph_def buildAdjacency_adjRel)
  have keys: "fst ` set graph = endpoints correlations"
    by (simp add: graph_def buildAdjacency_keys)
  have sym: "sym (adjRel graph)" by (simp add: adj sym_linked)
  have within: "adjRel graph \<subseteq> endpoints correlations \<times> endpoints correlations"
    by (simp add: adj linked_within)
  have "closedUnder graph V' \<and> componentsOK graph V' cs \<and> {} \<union> set (map fst graph) \<subseteq> V'
        \<and> V' \<subseteq> endpoints correlations"
    by (rule componentsLoop_inv[OF sym within _ _ _ _ l])
       (simp_all add: closedUnder_def componentsOK_def keys)
  then have V: "V' = endpoints correlations" and ok: "componentsOK graph V' cs"
    using keys by auto
  from ok have cover: "\<Union> (set ` set cs) = endpoints correlations"
    and dist: "distinct (concat cs)"
    and cls: "\<forall>c \<in> set cs. c \<noteq> [] \<and> (\<forall>x \<in> set c. set c = {y. (x, y) \<in> (linked correlations)\<^sup>*})"
    using V by (simp_all add: componentsOK_def adj)
  have uniq: "\<forall>e \<in> endpoints correlations. \<exists>!i. i < length cs \<and> e \<in> set (cs ! i)"
  proof
    fix e assume "e \<in> endpoints correlations"
    with cover obtain c where "c \<in> set cs" "e \<in> set c" by auto
    then obtain i where i: "i < length cs" "e \<in> set (cs ! i)"
      by (auto simp add: in_set_conv_nth)
    show "\<exists>!i. i < length cs \<and> e \<in> set (cs ! i)"
    proof (rule ex1I[of _ i])
      show "i < length cs \<and> e \<in> set (cs ! i)" using i by simp
    next
      fix j assume "j < length cs \<and> e \<in> set (cs ! j)"
      with i dist show "j = i" by (auto dest: distinct_concat_index)
    qed
  qed
  show ?thesis using cover dist uniq cls by (simp add: f)
qed

text \<open>
  Claim C7. For every list of correlations, \<^verbatim>\<open>findConnectedComponents\<close> returns a
  partition of the entities that occur as an end of a correlation: the components cover
  exactly these entities, no entity occurs twice in them (neither in two components nor
  twice in one), so every such entity is in exactly one component, and every component is
  not empty and is, for each of its members, the set of the entities that can be reached
  from that member through the correlations taken as undirected: a maximal set of
  mutually reachable entities.
\<close>

theorem findConnectedComponents_partition:
  "\<Union> (set ` set (findConnectedComponents correlations)) = endpoints correlations
   \<and> distinct (concat (findConnectedComponents correlations))
   \<and> (\<forall>e \<in> endpoints correlations.
         \<exists>!i. i < length (findConnectedComponents correlations)
              \<and> e \<in> set (findConnectedComponents correlations ! i))
   \<and> (\<forall>c \<in> set (findConnectedComponents correlations).
         c \<noteq> [] \<and> (\<forall>x \<in> set c. set c = {y. (x, y) \<in> (linked correlations)\<^sup>*}))"
  by (rule findConnectedComponents_props)

lemma ex_adjacency:
  "buildAdjacency ex_corrs [] =
     [(''A'', [''B'']), (''B'', [''A'', ''C'']), (''C'', [''B'']), (''D'', [''E'']), (''E'', [''D''])]"
  by (simp add: ex_corrs_def ex_ab_def ex_bc_def ex_de_def mkCorrelation_def addCorrelation_def
      ensureKey_def graph_has_def set_add_def)

lemma ex_components: "findConnectedComponents ex_corrs = [[''A'', ''B'', ''C''], [''D'', ''E'']]"
  unfolding findConnectedComponents_def ex_adjacency by (simp add: neighborsOf_def)

text \<open>Three correlations A-B, B-C and D-E: two components; what can be reached from A is
  A, B and C.\<close>

theorem findConnectedComponents_partition_witness:
  "findConnectedComponents ex_corrs = [[''A'', ''B'', ''C''], [''D'', ''E'']]
   \<and> endpoints ex_corrs = {''A'', ''B'', ''C'', ''D'', ''E''}
   \<and> {y. (''A'', y) \<in> (linked ex_corrs)\<^sup>*} = {''A'', ''B'', ''C''}"
proof -
  note p = findConnectedComponents_partition[of ex_corrs]
  from p have "\<Union> (set ` set (findConnectedComponents ex_corrs)) = endpoints ex_corrs" by blast
  then have e: "endpoints ex_corrs = {''A'', ''B'', ''C'', ''D'', ''E''}"
    by (auto simp add: ex_components)
  from p have "\<forall>c \<in> set (findConnectedComponents ex_corrs).
                 \<forall>x \<in> set c. set c = {y. (x, y) \<in> (linked ex_corrs)\<^sup>*}"
    by blast
  then have "set [''A'', ''B'', ''C''] = {y. (''A'', y) \<in> (linked ex_corrs)\<^sup>*}"
    by (simp add: ex_components)
  then have "{y. (''A'', y) \<in> (linked ex_corrs)\<^sup>*} = {''A'', ''B'', ''C''}" by auto
  with e ex_components show ?thesis by blast
qed

subsection \<open>Threat chains\<close>

lemma distinct_concat_member: "distinct (concat xss) \<Longrightarrow> xs \<in> set xss \<Longrightarrow> distinct xs"
  by (induction xss) auto

lemma chainsLoop_eq:
  "chainsLoop correlations components acc =
     acc @ map (\<lambda>c. analyzeThreatChain c correlations) (filter (emits correlations) components)"
proof (induction components arbitrary: acc)
  case Nil
  show ?case by simp
next
  case (Cons c components)
  have "tc_riskScore (analyzeThreatChain c correlations)
          = calculateChainRiskScore c (internalEdges c correlations)"
    by (simp add: analyzeThreatChain_def Let_def internalEdges_def)
  then show ?case by (simp add: Cons.IH emits_def Let_def)
qed

lemma analyzeThreatChain_fields:
  "tc_entities (analyzeThreatChain c correlations) = c"
  "tc_relationships (analyzeThreatChain c correlations) = internalEdges c correlations"
  "tc_riskScore (analyzeThreatChain c correlations) = calculateChainRiskScore c (internalEdges c correlations)"
  "tc_pattern (analyzeThreatChain c correlations) = identifyThreatPattern c (internalEdges c correlations)"
  by (simp_all add: analyzeThreatChain_def Let_def internalEdges_def)

lemma calculateChainRiskScore_spec:
  "edges \<noteq> [] \<Longrightarrow> calculateChainRiskScore c edges = chainRisk_spec (length c) edges"
  by (simp add: calculateChainRiskScore_def chainRisk_spec_def Let_def)

lemma calculateChainRiskScore_positive:
  "calculateChainRiskScore c edges > 0.5 \<Longrightarrow> edges \<noteq> []"
  by (auto simp add: calculateChainRiskScore_def)

lemma findThreatChains_eq:
  "findThreatChains entities correlations =
     map (\<lambda>c. analyzeThreatChain c correlations)
         (filter (emits correlations) (findConnectedComponents correlations))"
  by (simp add: findThreatChains_def chainsLoop_eq)

lemma correlateEvent_chains:
  "correlateEvent config db engine event = Inr result \<Longrightarrow>
     cr_threatChains result = findThreatChains (extractEntities event) (cr_correlations result)"
  by (auto simp add: correlateEvent_def Let_def split: if_splits prod.splits)

text \<open>
  Claim C2. Every threat chain that \<^verbatim>\<open>correlateEvent\<close> returns has at least three
  entities, which are distinct and form one of the connected components of the
  correlations found, and a risk score above 0.5; its relationships are the correlations
  inside the component, there is at least one, and its risk score is
  \<open>0.4 * min(1, n/10) + 0.4 * (mean strength) + 0.2 * (mean confidence)\<close> over them, with
  \<open>n\<close> the number of its entities. The chains returned are, in order, those of the
  components with at least three entities and a risk above 0.5: a component with fewer
  entities or with a risk of at most 0.5 yields no chain.
\<close>

theorem threat_chain_emission:
  "correlateEvent config db engine event = Inr result \<longrightarrow>
     (\<forall>chain \<in> set (cr_threatChains result).
         length (tc_entities chain) \<ge> 3
       \<and> distinct (tc_entities chain)
       \<and> tc_entities chain \<in> set (findConnectedComponents (cr_correlations result))
       \<and> tc_riskScore chain > 0.5
       \<and> tc_relationships chain = internalEdges (tc_entities chain) (cr_correlations result)
       \<and> tc_relationships chain \<noteq> []
       \<and> tc_riskScore chain = chainRisk_spec (length (tc_entities chain)) (tc_relationships chain))
     \<and> map tc_entities (cr_threatChains result)
         = filter (emits (cr_correlations result)) (findConnectedComponents (cr_correlations result))"
proof
  assume r: "correlateEvent config db engine event = Inr result"
  let ?corrs = "cr_correlations result"
  have ch: "cr_threatChains result
              = map (\<lambda>c. analyzeThreatChain c ?corrs) (filter (emits ?corrs) (findConnectedComponents ?corrs))"
    using correlateEvent_chains[OF r] by (simp add: findThreatChains_eq)
  have each: "length (tc_entities chain) \<ge> 3
       \<and> distinct (tc_entities chain)
       \<and> tc_entities chain \<in> set (findConnectedComponents ?corrs)
       \<and> tc_riskScore chain > 0.5
       \<and> tc_relationships chain = internalEdges (tc_entities chain) ?corrs
       \<and> tc_relationships chain \<noteq> []
       \<and> tc_riskScore chain = chainRisk_spec (length (tc_entities chain)) (tc_relationships chain)"
    if "chain \<in> set (cr_threatChains result)" for chain
  proof -
    from that ch obtain c where
      c: "c \<in> set (findConnectedComponents ?corrs)" "emits ?corrs c" "chain = analyzeThreatChain c ?corrs"
      by auto
    from c(1) have d: "distinct c"
      using findConnectedComponents_props[of ?corrs] distinct_concat_member[of "findConnectedComponents ?corrs" c]
      by blast
    from c(2) have l: "length c \<ge> 3" and k: "calculateChainRiskScore c (internalEdges c ?corrs) > 0.5"
      by (simp_all add: emits_def)
    from k have ne: "internalEdges c ?corrs \<noteq> []" by (rule calculateChainRiskScore_positive)
    show ?thesis
      using c(1) c(3) d l k ne by (simp add: analyzeThreatChain_fields calculateChainRiskScore_spec)
  qed
  have ents: "map tc_entities (cr_threatChains result)
         = filter (emits ?corrs) (findConnectedComponents ?corrs)"
    by (simp add: ch comp_def analyzeThreatChain_fields)
  from each ents show "(\<forall>chain \<in> set (cr_threatChains result).
         length (tc_entities chain) \<ge> 3
       \<and> distinct (tc_entities chain)
       \<and> tc_entities chain \<in> set (findConnectedComponents (cr_correlations result))
       \<and> tc_riskScore chain > 0.5
       \<and> tc_relationships chain = internalEdges (tc_entities chain) (cr_correlations result)
       \<and> tc_relationships chain \<noteq> []
       \<and> tc_riskScore chain = chainRisk_spec (length (tc_entities chain)) (tc_relationships chain))
     \<and> map tc_entities (cr_threatChains result)
         = filter (emits (cr_correlations result)) (findConnectedComponents (cr_correlations result))"
    by blast
qed

lemma ex_found_correlations:
  "correlateEntities ex_graph_config ex_db ex_graph_engine (ev_timestamp ex_abc_event)
     (extractEntities ex_abc_event) ([], 0, 0) = (ex_found, 7 / 2, 4)"
  by (simp add: extractEntities_def entityEntries_def Object_entries_def ex_abc_event_def ex_user_def
      findEntityCorrelations_def ex_graph_engine_def ex_db_def ex_graph_config_def mkRecord_def
      ex_found_def mkCorrelation_def Let_def)

lemma ex_found_adjacency:
  "buildAdjacency ex_found [] = [(''A'', [''B'']), (''B'', [''A'', ''C'']), (''C'', [''B''])]"
  by (simp add: ex_found_def mkCorrelation_def addCorrelation_def ensureKey_def graph_has_def set_add_def)

lemma ex_found_components: "findConnectedComponents ex_found = [[''A'', ''B'', ''C'']]"
  unfolding findConnectedComponents_def ex_found_adjacency by (simp add: neighborsOf_def)

lemma ex_found_internal: "internalEdges [''A'', ''B'', ''C''] ex_found = ex_found"
  by (simp add: internalEdges_def ex_found_def mkCorrelation_def)

lemma ex_found_risk: "chainRisk_spec (Suc (Suc (Suc 0))) ex_found = 16 / 25"
  by (simp add: chainRisk_spec_def ex_found_def mkCorrelation_def)

lemma ex_found_emits: "emits ex_found [''A'', ''B'', ''C'']"
proof -
  have "ex_found \<noteq> []" by (simp add: ex_found_def)
  then have "calculateChainRiskScore [''A'', ''B'', ''C''] ex_found = 16 / 25"
    using calculateChainRiskScore_spec[of ex_found "[''A'', ''B'', ''C'']"] by (simp add: ex_found_risk)
  then show ?thesis by (simp add: emits_def ex_found_internal)
qed

text \<open>The event with A, B and C on the database of the scenario: four correlations (each
  relationship is found from both of its ends), one chain, of risk 0.64.\<close>

theorem threat_chain_emission_witness:
  "\<exists>result. correlateEvent ex_graph_config ex_db ex_graph_engine ex_abc_event = Inr result
     \<and> cr_correlations result = ex_found
     \<and> map tc_entities (cr_threatChains result) = [[''A'', ''B'', ''C'']]
     \<and> map tc_riskScore (cr_threatChains result) = [16 / 25]"
proof -
  obtain result where
    r: "correlateEvent ex_graph_config ex_db ex_graph_engine ex_abc_event = Inr result"
       "cr_correlations result = ex_found"
  proof -
    have i: "ge_isInitialized ex_graph_engine" by (simp add: ex_graph_engine_def)
    have "\<exists>result. correlateEvent ex_graph_config ex_db ex_graph_engine ex_abc_event = Inr result
            \<and> cr_correlations result = ex_found"
      by (simp add: correlateEvent_def i ex_found_correlations Let_def)
    then show ?thesis using that by blast
  qed
  note t = threat_chain_emission[of ex_graph_config ex_db ex_graph_engine ex_abc_event result]
  from t r have e: "map tc_entities (cr_threatChains result) = [[''A'', ''B'', ''C'']]"
    by (simp add: ex_found_components ex_found_emits)
  then obtain chain where c: "cr_threatChains result = [chain]" "tc_entities chain = [''A'', ''B'', ''C'']"
    by auto
  from t r c have "tc_riskScore chain = chainRisk_spec (length (tc_entities chain)) (tc_relationships chain)"
    and "tc_relationships chain = internalEdges (tc_entities chain) ex_found"
    by simp_all
  with c(2) have "tc_riskScore chain = 16 / 25"
    by (simp add: ex_found_internal ex_found_risk)
  with r e c show ?thesis by simp
qed

subsection \<open>Classification of a chain\<close>

lemma set_foldl_set_add: "set (foldl set_add acc xs) = set acc \<union> set xs"
  by (induction xs arbitrary: acc) auto

lemma distinct_foldl_set_add: "distinct acc \<Longrightarrow> distinct (foldl set_add acc xs)"
  by (induction xs arbitrary: acc) (auto simp add: set_add_def)

lemma uniqueValues_set [simp]: "set (uniqueValues xs) = set xs"
  by (simp add: uniqueValues_def set_foldl_set_add)

lemma uniqueValues_length: "length (uniqueValues xs) = card (set xs)"
proof -
  have "distinct (uniqueValues xs)" by (simp add: uniqueValues_def distinct_foldl_set_add)
  then have "card (set (uniqueValues xs)) = length (uniqueValues xs)" by (rule distinct_card)
  then show ?thesis by simp
qed

lemma identifyThreatPattern_spec:
  "identifyThreatPattern entities edges = classify_spec (relationship ` set edges)"
  by (simp add: identifyThreatPattern_def classify_spec_def Let_def uniqueValues_length)

lemma ex_scenario_adjacency:
  "buildAdjacency ex_scenario [] = [(''A'', [''B'']), (''B'', [''A'', ''C'']), (''C'', [''B''])]"
  by (simp add: ex_scenario_def ex_ab_def ex_bc_def mkCorrelation_def addCorrelation_def ensureKey_def
      graph_has_def set_add_def)

lemma ex_scenario_components: "findConnectedComponents ex_scenario = [[''A'', ''B'', ''C'']]"
  unfolding findConnectedComponents_def ex_scenario_adjacency by (simp add: neighborsOf_def)

lemma ex_scenario_internal: "internalEdges [''A'', ''B'', ''C''] ex_scenario = ex_scenario"
  by (simp add: internalEdges_def ex_scenario_def ex_ab_def ex_bc_def mkCorrelation_def)

lemma ex_scenario_risk: "calculateChainRiskScore [''A'', ''B'', ''C''] ex_scenario = 16 / 25"
  by (simp add: calculateChainRiskScore_def ex_scenario_def ex_ab_def ex_bc_def mkCorrelation_def Let_def)

lemma ex_scenario_pattern: "classify_spec (relationship ` set ex_scenario) = ''privilege_escalation''"
  by (simp add: classify_spec_def ex_scenario_def ex_ab_def ex_bc_def mkCorrelation_def)

text \<open>
  Claim C6. The pattern of a chain is read off the set of the distinct relationship types
  of the correlations inside the component, by the table of the specification taken in
  order: \<^verbatim>\<open>communicates_with\<close> and \<^verbatim>\<open>accesses\<close> give \<^verbatim>\<open>lateral_movement\<close>; else
  \<^verbatim>\<open>executes\<close> and \<^verbatim>\<open>accesses\<close> give \<^verbatim>\<open>privilege_escalation\<close>; else \<^verbatim>\<open>communicates_with\<close>
  with more than two distinct types gives \<^verbatim>\<open>command_and_control\<close>; else \<^verbatim>\<open>accesses\<close> with
  more than three gives \<^verbatim>\<open>data_exfiltration\<close>; else \<^verbatim>\<open>suspicious_activity\<close>. For the two
  correlations A-B (\<^verbatim>\<open>executes\<close>, strength 0.9, confidence 0.9) and B-C (\<^verbatim>\<open>accesses\<close>,
  strength 0.85, confidence 0.8), \<^verbatim>\<open>findThreatChains\<close> returns one chain, of the entities
  A, B and C, with the pattern \<^verbatim>\<open>privilege_escalation\<close> and the risk score
  \<open>0.4 * 0.3 + 0.4 * 0.875 + 0.2 * 0.85 = 0.64\<close>.
\<close>

theorem chain_classification:
  "tc_pattern (analyzeThreatChain entities correlations)
     = classify_spec (relationship ` set (internalEdges entities correlations))
   \<and> map tc_entities (findThreatChains nodes ex_scenario) = [[''A'', ''B'', ''C'']]
   \<and> map tc_pattern (findThreatChains nodes ex_scenario) = [''privilege_escalation'']
   \<and> map tc_riskScore (findThreatChains nodes ex_scenario) = [0.4 * 0.3 + 0.4 * 0.875 + 0.2 * 0.85]
   \<and> (0.4 * 0.3 + 0.4 * 0.875 + 0.2 * 0.85 :: real) = 0.64"
proof -
  have e: "emits ex_scenario [''A'', ''B'', ''C'']"
    by (simp add: emits_def ex_scenario_internal ex_scenario_risk)
  have f: "findThreatChains nodes ex_scenario = [analyzeThreatChain [''A'', ''B'', ''C''] ex_scenario]"
    by (simp add: findThreatChains_eq ex_scenario_components e)
  show ?thesis
    by (simp add: analyzeThreatChain_fields identifyThreatPattern_spec f ex_scenario_internal
        ex_scenario_risk ex_scenario_pattern)
qed

text \<open>The four correlations found for the event with A, B and C carry the types
  \<^verbatim>\<open>executes\<close> and \<^verbatim>\<open>accesses\<close>.\<close>

theorem chain_classification_witness:
  "tc_pattern (analyzeThreatChain [''A'', ''B'', ''C''] ex_found) = ''privilege_escalation''"
proof -
  have "relationship ` set ex_found = {''executes'', ''accesses''}"
    by (auto simp add: ex_found_def mkCorrelation_def)
  then have "classify_spec (relationship ` set ex_found) = ''privilege_escalation''"
    by (simp add: classify_spec_def)
  with chain_classification[of "[''A'', ''B'', ''C'']" ex_found] show ?thesis
    by (simp add: ex_found_internal)
qed

subsection \<open>Rule evaluation\<close>

lemma evaluateRule_fails:
  "oracleFails env l \<Longrightarrow>
     matches (fst (evaluateRule env rule event ctx l)) = False
     \<and> re_confidence (fst (evaluateRule env rule event ctx l)) = 0"
  by (auto simp add: oracleFails_def evaluateRule_def LLMService_evaluateRule_def evaluationFailed_def Let_def)

lemma evaluateRules_step_eq:
  "fst (evaluateRules_step env event ctx rule ((m, n, f), l)) =
     (let r = fst (evaluateRule env rule event ctx l)
      in (if matches r then m @ [rule] else m,
          n \<or> asksRecommendation event (rule, r),
          f + fpContribution r))"
  by (cases "evaluateRule env rule event ctx l")
     (auto simp add: evaluateRules_step_def Let_def asksRecommendation_def fpContribution_def)

lemma evaluateRules_step_llm:
  "snd (evaluateRules_step env event ctx rule ((m, n, f), l)) = snd (evaluateRule env rule event ctx l)"
  by (cases "evaluateRule env rule event ctx l") (simp add: evaluateRules_step_def Let_def)

text \<open>The accumulators of the loop in terms of the evaluations made.\<close>

lemma evaluateRules_loop_eq:
  "fst (evaluateRules_loop env event ctx rules ((m, n, f), l)) =
     (m @ map fst (filter (\<lambda>rr. matches (snd rr)) (evaluations env event ctx rules l)),
      n \<or> list_ex (asksRecommendation event) (evaluations env event ctx rules l),
      f + sum_list (map (\<lambda>rr. fpContribution (snd rr)) (evaluations env event ctx rules l)))"
proof (induction rules arbitrary: m n f l)
  case Nil
  show ?case by simp
next
  case (Cons rule rest)
  obtain r l1 where e: "evaluateRule env rule event ctx l = (r, l1)"
    by (cases "evaluateRule env rule event ctx l")
  obtain m1 n1 f1 where a: "fst (evaluateRules_step env event ctx rule ((m, n, f), l)) = (m1, n1, f1)"
    by (cases "fst (evaluateRules_step env event ctx rule ((m, n, f), l))") auto
  have s: "evaluateRules_step env event ctx rule ((m, n, f), l) = ((m1, n1, f1), l1)"
    using a evaluateRules_step_llm[of env event ctx rule m n f l] e
    by (cases "evaluateRules_step env event ctx rule ((m, n, f), l)") simp
  from a have v: "m1 = (if matches r then m @ [rule] else m)"
    "n1 = (n \<or> asksRecommendation event (rule, r))" "f1 = f + fpContribution r"
    by (simp_all add: evaluateRules_step_eq e Let_def)
  show ?case
    by (simp add: s e Cons.IH v)
qed

lemma evaluations_all_fail:
  "\<forall>l. oracleFails env l \<Longrightarrow> \<forall>rr \<in> set (evaluations env event ctx rules l). \<not> matches (snd rr)"
proof (induction rules arbitrary: l)
  case Nil
  show ?case by simp
next
  case (Cons rule rest)
  obtain r l1 where e: "evaluateRule env rule event ctx l = (r, l1)"
    by (cases "evaluateRule env rule event ctx l")
  from Cons.prems have "oracleFails env l" by blast
  with evaluateRule_fails[of env l rule event ctx] e have "\<not> matches r" by simp
  with Cons.IH[OF Cons.prems, of l1] e show ?case by simp
qed

lemma calls_logCall [simp]: "calls (logCall c s) = calls s @ [c]"
  by (simp add: logCall_def)

lemma logCall_fields [simp]:
  "behavioralAnalytics (logCall c s) = behavioralAnalytics s"
  "graphCorrelation (logCall c s) = graphCorrelation s"
  "llmService (logCall c s) = llmService s"
  "kb_isInitialized (logCall c s) = kb_isInitialized s"
  "activeRules (logCall c s) = activeRules s"
  by (simp_all add: logCall_def)

lemma evaluateRules_fields [simp]:
  "calls (snd (evaluateRules env event ctx s)) = calls s"
  "behavioralAnalytics (snd (evaluateRules env event ctx s)) = behavioralAnalytics s"
  by (simp_all add: evaluateRules_def split: prod.splits)

lemma generateRecommendations_fields [simp]:
  "calls (generateRecommendations env event rr s) = calls s"
  "behavioralAnalytics (generateRecommendations env event rr s) = behavioralAnalytics s"
  by (simp_all add: generateRecommendations_def split: prod.splits sum.splits)

lemma updateLearningModels_fields [simp]:
  "calls (updateLearningModels env event s)
     = calls s @ [UpdateBaseline (ev_id event), UpdateGraph (ev_id event), UpdateWithEvent (ev_id event)]"
  "behavioralAnalytics (updateLearningModels env event s)
     = updateBaseline (behavioral_config env) (clock env) event (behavioralAnalytics s)"
  by (simp_all add: updateLearningModels_def Let_def)

text \<open>The run of the pipeline, stage by stage: what it logs and what it leaves in the
  behavioural engine.\<close>

lemma pipeline_analysis_throws:
  "analyzeEvent (behavioral_config env) (clock env) event (behavioralAnalytics s) = (Inl err, ba) \<Longrightarrow>
     calls (processEventPipeline env event s) = calls s @ [AnalyzeEvent (ev_id event)]
     \<and> behavioralAnalytics (processEventPipeline env event s) = ba"
  by (simp add: processEventPipeline_def Let_def)

lemma pipeline_correlation_throws:
  "analyzeEvent (behavioral_config env) (clock env) event (behavioralAnalytics s) = (Inr br, ba) \<Longrightarrow>
   correlateEvent (graph_config env) (graph_db env) (graphCorrelation s) event = Inl err \<Longrightarrow>
     calls (processEventPipeline env event s)
       = calls s @ [AnalyzeEvent (ev_id event), CorrelateEvent (ev_id event)]
     \<and> behavioralAnalytics (processEventPipeline env event s) = ba"
  by (simp add: processEventPipeline_def Let_def)

lemma pipeline_enrichment_throws:
  "analyzeEvent (behavioral_config env) (clock env) event (behavioralAnalytics s) = (Inr br, ba) \<Longrightarrow>
   correlateEvent (graph_config env) (graph_db env) (graphCorrelation s) event = Inr cr \<Longrightarrow>
   enrichEvent env event s = Inl err \<Longrightarrow>
     calls (processEventPipeline env event s)
       = calls s @ [AnalyzeEvent (ev_id event), CorrelateEvent (ev_id event), EnrichEvent (ev_id event)]
     \<and> behavioralAnalytics (processEventPipeline env event s) = ba"
  by (simp add: processEventPipeline_def Let_def enrichEvent_def split: if_splits)

lemma pipeline_completes:
  "analyzeEvent (behavioral_config env) (clock env) event (behavioralAnalytics s) = (Inr br, ba) \<Longrightarrow>
   correlateEvent (graph_config env) (graph_db env) (graphCorrelation s) event = Inr cr \<Longrightarrow>
   enrichEvent env event s = Inr en \<Longrightarrow>
     \<exists>mid. calls (processEventPipeline env event s)
              = calls s @ [AnalyzeEvent (ev_id event), CorrelateEvent (ev_id event), EnrichEvent (ev_id event),
                           EvaluateRules (ev_id event)] @ mid
                  @ [UpdateBaseline (ev_id event), UpdateGraph (ev_id event), UpdateWithEvent (ev_id event)]
          \<and> (mid = [] \<or> mid = [GenerateRecommendations (ev_id event)])
     \<and> behavioralAnalytics (processEventPipeline env event s)
         = updateBaseline (behavioral_config env) (clock env) event ba"
proof -
  assume a: "analyzeEvent (behavioral_config env) (clock env) event (behavioralAnalytics s) = (Inr br, ba)"
    and c: "correlateEvent (graph_config env) (graph_db env) (graphCorrelation s) event = Inr cr"
    and e: "enrichEvent env event s = Inr en"
  let ?s2 = "logCall (EnrichEvent (ev_id event))
               (logCall (CorrelateEvent (ev_id event))
                  (logCall (AnalyzeEvent (ev_id event)) s\<lparr>behavioralAnalytics := ba\<rparr>))"
  let ?ctx = "\<lparr>ctx_behavioral = br, ctx_correlation = cr, ctx_enrichment = en\<rparr>"
  obtain rr s3 where r: "evaluateRules env event ?ctx (logCall (EvaluateRules (ev_id event)) ?s2) = (rr, s3)"
    by (cases "evaluateRules env event ?ctx (logCall (EvaluateRules (ev_id event)) ?s2)")
  have e2: "enrichEvent env event ?s2 = Inr en" using e by (simp add: enrichEvent_def)
  have p: "processEventPipeline env event s =
             updateLearningModels env event
               (if rr_needsRecommendation rr
                then generateRecommendations env event rr (logCall (GenerateRecommendations (ev_id event)) s3)
                else s3)"
    using a c e2 r by (simp add: processEventPipeline_def Let_def)
  have c3: "calls s3 = calls s @ [AnalyzeEvent (ev_id event), CorrelateEvent (ev_id event),
                                  EnrichEvent (ev_id event), EvaluateRules (ev_id event)]"
    using evaluateRules_fields(1)[of env event ?ctx "logCall (EvaluateRules (ev_id event)) ?s2"] r
    by simp
  have b3: "behavioralAnalytics s3 = ba"
    using evaluateRules_fields(2)[of env event ?ctx "logCall (EvaluateRules (ev_id event)) ?s2"] r
    by simp
  show ?thesis
  proof (cases "rr_needsRecommendation rr")
    case True
    then show ?thesis using p c3 b3
      by (intro exI[of _ "[GenerateRecommendations (ev_id event)]"]) simp
  next
    case False
    then show ?thesis using p c3 b3
      by (intro exI[of _ "[]"]) simp
  qed
qed

lemma sum_list_zero: "\<forall>x \<in> set xs. f x = 0 \<Longrightarrow> sum_list (map f xs) = (0::real)"
  by (induction xs) auto

text \<open>Once the three stages before it have returned, the pipeline is the evaluation of the
  rules, the recommendations when they are needed, and the update of the learning
  models.\<close>

lemma pipeline_state:
  "analyzeEvent (behavioral_config env) (clock env) event (behavioralAnalytics s) = (Inr br, ba) \<Longrightarrow>
   correlateEvent (graph_config env) (graph_db env) (graphCorrelation s) event = Inr cr \<Longrightarrow>
   enrichEvent env event s = Inr en \<Longrightarrow>
     processEventPipeline env event s
       = updateLearningModels env event
           (if rr_needsRecommendation
                 (fst (evaluateRules env event
                         \<lparr>ctx_behavioral = br, ctx_correlation = cr, ctx_enrichment = en\<rparr>
                         (stagesDone event ba s)))
            then generateRecommendations env event
                   (fst (evaluateRules env event
                           \<lparr>ctx_behavioral = br, ctx_correlation = cr, ctx_enrichment = en\<rparr>
                           (stagesDone event ba s)))
                   (logCall (GenerateRecommendations (ev_id event))
                      (snd (evaluateRules env event
                              \<lparr>ctx_behavioral = br, ctx_correlation = cr, ctx_enrichment = en\<rparr>
                              (stagesDone event ba s))))
            else snd (evaluateRules env event
                        \<lparr>ctx_behavioral = br, ctx_correlation = cr, ctx_enrichment = en\<rparr>
                        (stagesDone event ba s)))"
proof -
  assume a: "analyzeEvent (behavioral_config env) (clock env) event (behavioralAnalytics s) = (Inr br, ba)"
    and c: "correlateEvent (graph_config env) (graph_db env) (graphCorrelation s) event = Inr cr"
    and e: "enrichEvent env event s = Inr en"
  let ?s2 = "logCall (EnrichEvent (ev_id event))
               (logCall (CorrelateEvent (ev_id event))
                  (logCall (AnalyzeEvent (ev_id event)) s\<lparr>behavioralAnalytics := ba\<rparr>))"
  let ?ctx = "\<lparr>ctx_behavioral = br, ctx_correlation = cr, ctx_enrichment = en\<rparr>"
  obtain rr s3 where r: "evaluateRules env event ?ctx (logCall (EvaluateRules (ev_id event)) ?s2) = (rr, s3)"
    by (cases "evaluateRules env event ?ctx (logCall (EvaluateRules (ev_id event)) ?s2)")
  have e2: "enrichEvent env event ?s2 = Inr en" using e by (simp add: enrichEvent_def)
  have p: "processEventPipeline env event s =
             updateLearningModels env event
               (if rr_needsRecommendation rr
                then generateRecommendations env event rr (logCall (GenerateRecommendations (ev_id event)) s3)
                else s3)"
    using a c e2 r by (simp add: processEventPipeline_def Let_def)
  have d: "stagesDone event ba s = logCall (EvaluateRules (ev_id event)) ?s2"
    by (simp add: stagesDone_def)
  show ?thesis unfolding d r p by simp
qed

lemma evaluateRules_all_fail:
  assumes a: "\<forall>l. oracleFails env l"
  shows "rr_matchedRules (fst (evaluateRules env event ctx s)) = []"
    and "rr_falsePositiveRisk (fst (evaluateRules env event ctx s)) = 0"
    and "\<not> rr_needsRecommendation (fst (evaluateRules env event ctx s))"
proof -
  let ?evs = "evaluations env event ctx (map snd (activeRules s)) (llmService s)"
  from evaluations_all_fail[OF a] have n: "\<forall>rr \<in> set ?evs. \<not> matches (snd rr)" .
  then have 1: "filter (\<lambda>rr. matches (snd rr)) ?evs = []" by (simp add: filter_empty_conv)
  from n have 2: "\<not> list_ex (asksRecommendation event) ?evs"
    by (auto simp add: list_ex_iff asksRecommendation_def)
  from n have "\<forall>rr \<in> set ?evs. fpContribution (snd rr) = 0" by (simp add: fpContribution_def)
  then have 3: "sum_list (map (\<lambda>rr. fpContribution (snd rr)) ?evs) = 0" by (rule sum_list_zero)
  have r: "fst (evaluateRules_loop env event ctx (map snd (activeRules s)) (([], False, 0), llmService s))
             = ([], False, 0)"
    by (simp add: evaluateRules_loop_eq 1 2 3)
  show "rr_matchedRules (fst (evaluateRules env event ctx s)) = []"
    and "rr_falsePositiveRisk (fst (evaluateRules env event ctx s)) = 0"
    and "\<not> rr_needsRecommendation (fst (evaluateRules env event ctx s))"
    using r by (auto simp add: evaluateRules_def split: prod.splits)
qed

text \<open>
  Claim C8. When the evaluation of a rule by the oracle fails (the service is not
  initialized or has no client, the request fails or times out, or the answer does not
  parse), \<^verbatim>\<open>evaluateRule\<close> returns \<open>matches = false\<close> and \<open>confidence = 0\<close>; the step of
  the loop of \<^verbatim>\<open>evaluateRules\<close> on that rule leaves the matched rules, the
  false-positive risk and the recommendation flag as they were, and the loop goes on to
  the rules that follow. When every request fails, \<^verbatim>\<open>evaluateRules\<close> returns no matched
  rule, risk 0 and no need of a recommendation. The evaluation of the rules never throws:
  once the analysis, the correlation and the enrichment of an event have returned, the
  state that the pipeline leaves is the update of the learning models applied to the
  state after the evaluation of the rules (after the recommendations, when they are
  needed; directly, when every request fails), so the behavioural engine holds the
  baselines updated with the event, and the three calls of the update end the log.
\<close>

theorem failing_oracle_degrades:
  "(oracleFails env l \<longrightarrow>
      matches (fst (evaluateRule env rule event ctx l)) = False
      \<and> re_confidence (fst (evaluateRule env rule event ctx l)) = 0
      \<and> fst (evaluateRules_step env event ctx rule ((matched, needs, risk), l)) = (matched, needs, risk)
      \<and> evaluateRules_loop env event ctx (rule # rest) ((matched, needs, risk), l)
          = evaluateRules_loop env event ctx rest
              ((matched, needs, risk), snd (evaluateRule env rule event ctx l)))
   \<and> ((\<forall>l. oracleFails env l) \<longrightarrow>
        rr_matchedRules (fst (evaluateRules env event ctx s)) = []
        \<and> rr_falsePositiveRisk (fst (evaluateRules env event ctx s)) = 0
        \<and> \<not> rr_needsRecommendation (fst (evaluateRules env event ctx s)))
   \<and> (analyzeEvent (behavioral_config env) (clock env) event (behavioralAnalytics s) = (Inr br, ba)
        \<and> correlateEvent (graph_config env) (graph_db env) (graphCorrelation s) event = Inr cr
        \<and> enrichEvent env event s = Inr en \<longrightarrow>
        processEventPipeline env event s
          = updateLearningModels env event
              (if rr_needsRecommendation
                    (fst (evaluateRules env event
                            \<lparr>ctx_behavioral = br, ctx_correlation = cr, ctx_enrichment = en\<rparr>
                            (stagesDone event ba s)))
               then generateRecommendations env event
                      (fst (evaluateRules env event
                              \<lparr>ctx_behavioral = br, ctx_correlation = cr, ctx_enrichment = en\<rparr>
                              (stagesDone event ba s)))
                      (logCall (GenerateRecommendations (ev_id event))
                         (snd (evaluateRules env event
                                 \<lparr>ctx_behavioral = br, ctx_correlation = cr, ctx_enrichment = en\<rparr>
                                 (stagesDone event ba s))))
               else snd (evaluateRules env event
                           \<lparr>ctx_behavioral = br, ctx_correlation = cr, ctx_enrichment = en\<rparr>
                           (stagesDone event ba s)))
        \<and> ((\<forall>l. oracleFails env l) \<longrightarrow>
              processEventPipeline env event s
                = updateLearningModels env event
                    (snd (evaluateRules env event
                            \<lparr>ctx_behavioral = br, ctx_correlation = cr, ctx_enrichment = en\<rparr>
                            (stagesDone event ba s))))
        \<and> behavioralAnalytics (processEventPipeline env event s)
            = updateBaseline (behavioral_config env) (clock env) event ba
        \<and> (\<exists>pre. calls (processEventPipeline env event s)
                 = pre @ [UpdateBaseline (ev_id event), UpdateGraph (ev_id event),
                          UpdateWithEvent (ev_id event)]))"
proof (intro conjI impI)
  assume f: "oracleFails env l"
  from evaluateRule_fails[OF f, of rule event ctx]
  show m: "matches (fst (evaluateRule env rule event ctx l)) = False"
    and c: "re_confidence (fst (evaluateRule env rule event ctx l)) = 0"
    by simp_all
  show st: "fst (evaluateRules_step env event ctx rule ((matched, needs, risk), l)) = (matched, needs, risk)"
    using m by (simp add: evaluateRules_step_eq Let_def asksRecommendation_def fpContribution_def)
  have "evaluateRules_step env event ctx rule ((matched, needs, risk), l)
          = ((matched, needs, risk), snd (evaluateRule env rule event ctx l))"
    using st evaluateRules_step_llm[of env event ctx rule matched needs risk l]
    by (cases "evaluateRules_step env event ctx rule ((matched, needs, risk), l)") simp
  then show "evaluateRules_loop env event ctx (rule # rest) ((matched, needs, risk), l)
          = evaluateRules_loop env event ctx rest
              ((matched, needs, risk), snd (evaluateRule env rule event ctx l))"
    by simp
next
  assume a: "\<forall>l. oracleFails env l"
  show "rr_matchedRules (fst (evaluateRules env event ctx s)) = []"
    and "rr_falsePositiveRisk (fst (evaluateRules env event ctx s)) = 0"
    and "\<not> rr_needsRecommendation (fst (evaluateRules env event ctx s))"
    using evaluateRules_all_fail[OF a] by simp_all
next
  assume h: "analyzeEvent (behavioral_config env) (clock env) event (behavioralAnalytics s) = (Inr br, ba)
        \<and> correlateEvent (graph_config env) (graph_db env) (graphCorrelation s) event = Inr cr
        \<and> enrichEvent env event s = Inr en"
  let ?ctx = "\<lparr>ctx_behavioral = br, ctx_correlation = cr, ctx_enrichment = en\<rparr>"
  from h pipeline_state[of env event s br ba cr en]
  show p: "processEventPipeline env event s
          = updateLearningModels env event
              (if rr_needsRecommendation (fst (evaluateRules env event ?ctx (stagesDone event ba s)))
               then generateRecommendations env event
                      (fst (evaluateRules env event ?ctx (stagesDone event ba s)))
                      (logCall (GenerateRecommendations (ev_id event))
                         (snd (evaluateRules env event ?ctx (stagesDone event ba s))))
               else snd (evaluateRules env event ?ctx (stagesDone event ba s)))"
    by blast
  show "processEventPipeline env event s
          = updateLearningModels env event (snd (evaluateRules env event ?ctx (stagesDone event ba s)))"
    if a: "\<forall>l. oracleFails env l"
    using p evaluateRules_all_fail(3)[OF a, of event ?ctx "stagesDone event ba s"] by simp
  from h pipeline_completes[of env event s br ba cr en] obtain mid where
    m: "calls (processEventPipeline env event s)
       = calls s @ [AnalyzeEvent (ev_id event), CorrelateEvent (ev_id event), EnrichEvent (ev_id event),
                    EvaluateRules (ev_id event)] @ mid
           @ [UpdateBaseline (ev_id event), UpdateGraph (ev_id event), UpdateWithEvent (ev_id event)]"
       "behavioralAnalytics (processEventPipeline env event s)
         = updateBaseline (behavioral_config env) (clock env) event ba"
    by blast
  from m(2) show "behavioralAnalytics (processEventPipeline env event s)
         = updateBaseline (behavioral_config env) (clock env) event ba" .
  from m(1) show "\<exists>pre. calls (processEventPipeline env event s)
                 = pre @ [UpdateBaseline (ev_id event), UpdateGraph (ev_id event),
                          UpdateWithEvent (ev_id event)]"
    by (intro exI[of _ "calls s @ [AnalyzeEvent (ev_id event), CorrelateEvent (ev_id event),
                                   EnrichEvent (ev_id event), EvaluateRules (ev_id event)] @ mid"]) simp
qed

subsection \<open>Rule performance\<close>

lemma map_of_obj_set [simp]: "map_of (obj_set al k v) k = Some v"
  by (induction al k v rule: obj_set.induct) auto

text \<open>
  Claim C9. After \<^verbatim>\<open>updateRulePerformance\<close> on a rule that the agent knows, the accuracy
  recorded for the rule equals its precision: both are the new count of true positives
  over the sum of the new counts of true and false positives, where the feedback has
  added one to the false positives when it is a false positive and one to the true
  positives otherwise. The count of false negatives is not read and is left as it was. The
  same holds after \<^verbatim>\<open>processFeedback\<close> on a feedback that names the rule.
\<close>

theorem rule_accuracy_is_precision:
  "(map_of (activeRules s) ruleId = Some rule \<longrightarrow>
      (\<exists>rule'. map_of (activeRules (updateRulePerformance env ruleId feedback s)) ruleId = Some rule'
         \<and> accuracy (performance rule') = precision (performance rule')
         \<and> accuracy (performance rule')
             = real (truePositives (performance rule) + (if isFalsePositive feedback then 0 else 1))
               / real (truePositives (performance rule) + falsePositives (performance rule) + 1)
         \<and> truePositives (performance rule')
             = truePositives (performance rule) + (if isFalsePositive feedback then 0 else 1)
         \<and> falsePositives (performance rule')
             = falsePositives (performance rule) + (if isFalsePositive feedback then 1 else 0)
         \<and> falseNegatives (performance rule') = falseNegatives (performance rule)))
   \<and> (truthy (fb_ruleId feedback) \<and> map_of (activeRules s) (the (fb_ruleId feedback)) = Some rule \<longrightarrow>
        (\<exists>rule'. map_of (activeRules (processFeedback env feedback s)) (the (fb_ruleId feedback)) = Some rule'
           \<and> accuracy (performance rule') = precision (performance rule')))"
proof (intro conjI impI)
  assume "map_of (activeRules s) ruleId = Some rule"
  then show "\<exists>rule'. map_of (activeRules (updateRulePerformance env ruleId feedback s)) ruleId = Some rule'
         \<and> accuracy (performance rule') = precision (performance rule')
         \<and> accuracy (performance rule')
             = real (truePositives (performance rule) + (if isFalsePositive feedback then 0 else 1))
               / real (truePositives (performance rule) + falsePositives (performance rule) + 1)
         \<and> truePositives (performance rule')
             = truePositives (performance rule) + (if isFalsePositive feedback then 0 else 1)
         \<and> falsePositives (performance rule')
             = falsePositives (performance rule) + (if isFalsePositive feedback then 1 else 0)
         \<and> falseNegatives (performance rule') = falseNegatives (performance rule)"
    by (simp add: updateRulePerformance_def Let_def add_ac)
next
  assume h: "truthy (fb_ruleId feedback) \<and> map_of (activeRules s) (the (fb_ruleId feedback)) = Some rule"
  let ?s1 = "s\<lparr>behavioralAnalytics := processFeedback_behavioral feedback (behavioralAnalytics s)\<rparr>"
  from h have "map_of (activeRules ?s1) (the (fb_ruleId feedback)) = Some rule" by simp
  then have "\<exists>rule'. map_of (activeRules (updateRulePerformance env (the (fb_ruleId feedback)) feedback ?s1))
                          (the (fb_ruleId feedback)) = Some rule'
         \<and> accuracy (performance rule') = precision (performance rule')"
    by (simp add: updateRulePerformance_def Let_def)
  then show "\<exists>rule'. map_of (activeRules (processFeedback env feedback s)) (the (fb_ruleId feedback)) = Some rule'
           \<and> accuracy (performance rule') = precision (performance rule')"
    using h by (simp add: processFeedback_def Let_def)
qed

subsection \<open>Similar rules and recommendations\<close>

lemma String_includes_sublist: "String_includes str search \<longleftrightarrow> sublist search str"
  by (induction str) (simp_all add: sublist_Cons_right)

lemma String_includes_empty [simp]: "String_includes str []"
  by (simp add: String_includes_sublist)

lemma hasSimilarRule_noTechnique: "noTechnique rule \<Longrightarrow> hasSimilarRule rule event"
  by (auto simp add: noTechnique_def hasSimilarRule_def toLowerCase_def Let_def split: list.splits)

lemma evaluations_rules [simp]: "map fst (evaluations env event ctx rules l) = rules"
  by (induction rules arbitrary: l) (auto split: prod.splits)

text \<open>
  Claim C10. The recommendation flag that \<^verbatim>\<open>evaluateRules\<close> returns is true exactly when
  one of the evaluations of the loop matched with a confidence above 0.8 on a rule for
  which \<^verbatim>\<open>hasSimilarRule\<close> is false; a step of the loop sets the flag only so. For a rule
  whose list of techniques is empty, or whose first technique is the empty string,
  \<^verbatim>\<open>hasSimilarRule\<close> is true for every event, so the step on such a rule leaves the flag as
  it was, and when all active rules are such the flag stays false.
\<close>

theorem recommendation_flag:
  "(noTechnique rule \<longrightarrow> hasSimilarRule rule event)
   \<and> fst (snd (fst (evaluateRules_step env event ctx rule ((matched, needs, risk), l))))
       = (needs \<or> asksRecommendation event (rule, fst (evaluateRule env rule event ctx l)))
   \<and> (noTechnique rule \<longrightarrow>
        fst (snd (fst (evaluateRules_step env event ctx rule ((matched, needs, risk), l)))) = needs)
   \<and> rr_needsRecommendation (fst (evaluateRules env event ctx s))
       = list_ex (asksRecommendation event)
           (evaluations env event ctx (map snd (activeRules s)) (llmService s))
   \<and> ((\<forall>rule \<in> set (map snd (activeRules s)). noTechnique rule) \<longrightarrow>
        \<not> rr_needsRecommendation (fst (evaluateRules env event ctx s)))"
proof (intro conjI impI)
  show "hasSimilarRule rule event" if "noTechnique rule"
    using that by (rule hasSimilarRule_noTechnique)
  show "fst (snd (fst (evaluateRules_step env event ctx rule ((matched, needs, risk), l))))
       = (needs \<or> asksRecommendation event (rule, fst (evaluateRule env rule event ctx l)))"
    by (simp add: evaluateRules_step_eq Let_def)
  show "fst (snd (fst (evaluateRules_step env event ctx rule ((matched, needs, risk), l)))) = needs"
    if "noTechnique rule"
    using hasSimilarRule_noTechnique[OF that, of event]
    by (simp add: evaluateRules_step_eq Let_def asksRecommendation_def)
  let ?evs = "evaluations env event ctx (map snd (activeRules s)) (llmService s)"
  have r: "fst (evaluateRules_loop env event ctx (map snd (activeRules s)) (([], False, 0), llmService s))
             = (map fst (filter (\<lambda>rr. matches (snd rr)) ?evs),
                list_ex (asksRecommendation event) ?evs,
                sum_list (map (\<lambda>rr. fpContribution (snd rr)) ?evs))"
    by (simp add: evaluateRules_loop_eq)
  show e: "rr_needsRecommendation (fst (evaluateRules env event ctx s))
             = list_ex (asksRecommendation event) ?evs"
    using r by (auto simp add: evaluateRules_def split: prod.splits)
  show "\<not> rr_needsRecommendation (fst (evaluateRules env event ctx s))"
    if a: "\<forall>rule \<in> set (map snd (activeRules s)). noTechnique rule"
  proof -
    have "\<not> asksRecommendation event rr" if m: "rr \<in> set ?evs" for rr
    proof -
      from m have "fst rr \<in> set (map fst ?evs)" by (simp del: evaluations_rules)
      then have "fst rr \<in> set (map snd (activeRules s))" by simp
      with a have "noTechnique (fst rr)" by blast
      then have "hasSimilarRule (fst rr) event" by (rule hasSimilarRule_noTechnique)
      then show ?thesis by (simp add: asksRecommendation_def)
    qed
    then show ?thesis by (simp add: e list_ex_iff)
  qed
qed

subsection \<open>Sample runs\<close>

lemma analyzeEntityBehavior_connected:
  "db_isConnected s \<Longrightarrow>
     \<exists>ea s'. analyzeEntityBehavior config now entity event s = (Inr ea, s') \<and> db_isConnected s'"
  by (cases "baselines s (e_id entity)")
     (auto simp add: analyzeEntityBehavior_def createInitialBaseline_eq split: prod.splits)

lemma analyzeEntities_connected:
  "db_isConnected s \<Longrightarrow>
     \<exists>acc' s'. analyzeEntities config now event ents acc s = (Inr acc', s') \<and> db_isConnected s'"
proof (induction ents arbitrary: acc s)
  case (Nil acc s)
  have "analyzeEntities config now event [] acc s = (Inr acc, s)" by simp
  with Nil show ?case by blast
next
  case (Cons ke rest acc s)
  obtain key e where ke: "ke = (key, e)" by (cases ke)
  obtain an r c n where acc: "acc = (an, r, c, n)" by (cases acc) auto
  from analyzeEntityBehavior_connected[OF Cons.prems, of config now e event] obtain ea s1 where
    a: "analyzeEntityBehavior config now e event s = (Inr ea, s1)" "db_isConnected s1"
    by blast
  show ?case
    using Cons.IH[OF a(2)] a(1) by (simp add: ke acc)
qed

lemma analyzeEvent_connected:
  "ba_isInitialized s \<Longrightarrow> db_isConnected s \<Longrightarrow>
     \<exists>r s'. analyzeEvent config now event s = (Inr r, s')"
proof -
  assume i: "ba_isInitialized s" and c: "db_isConnected s"
  from analyzeEntities_connected[OF c, of config now event "entityEntries event" "([], 0, 0, 0)"]
  obtain acc' s' where
    "analyzeEntities config now event (entityEntries event) ([], 0, 0, 0) s = (Inr acc', s')"
    by blast
  then show ?thesis using i
    by (cases acc') (simp add: analyzeEvent_def Let_def)
qed

lemma correlateEvent_initialized:
  "ge_isInitialized engine \<Longrightarrow> \<exists>r. correlateEvent config db engine event = Inr r"
  by (simp add: correlateEvent_def Let_def split: prod.splits)

lemma updateLearningModels_others [simp]:
  "llmService (updateLearningModels env event s) = llmService s"
  "recommendationsCreated (updateLearningModels env event s) = recommendationsCreated s"
  by (simp_all add: updateLearningModels_def Let_def logCall_def)

lemma ex_analysis_store:
  "baselines (snd (analyzeEvent ex_config ex_date ex_event ex_engine))
     = [''u1'' \<mapsto> ex_baseline, ''u2'' \<mapsto> freshBaseline ex_date ''u2'' ''user'',
        ''u3'' \<mapsto> freshBaseline ex_date ''u3'' ''user'', ''u4'' \<mapsto> freshBaseline ex_date ''u4'' ''user'',
        ''u5'' \<mapsto> freshBaseline ex_date ''u5'' ''user'']
   \<and> db_isConnected (snd (analyzeEvent ex_config ex_date ex_event ex_engine))"
  by (simp add: analyzeEvent_def entityEntries_def Object_entries_def ex_event_def ex_user_def
      ex_engine_def analyzeEntityBehavior_def createInitialBaseline_def storeBaseline_def
      ex_baseline_def ex_pattern_def analyzePattern_def extractPatternValue_def ex_config_def
      freshBaseline_def Let_def split: prod.splits)


lemma ex_rules_llm:
  "llmService (snd (evaluateRules ex_env_failing ex_event ctx (stagesDone ex_event ba ex_agent)))
     = ex_llm\<lparr>llm_requests := 1\<rparr>
   \<and> recommendationsCreated (snd (evaluateRules ex_env_failing ex_event ctx (stagesDone ex_event ba ex_agent))) = 0"
  by (simp add: evaluateRules_def stagesDone_def logCall_def ex_agent_def evaluateRules_step_def
      evaluateRule_def LLMService_evaluateRule_def ex_llm_def ex_env_failing_def Let_def
      evaluationFailed_def split: prod.splits)

text \<open>A language model that times out on every request: the rule is not matched, one
  request has been made, no recommendation is created, and the update of the learning
  models has gone through: the baseline of the known user and the baseline that the
  analysis has filed for an unknown one are both updated with the event.\<close>

theorem failing_oracle_degrades_witness:
  "matches (fst (evaluateRule ex_env_failing ex_rule ex_event ex_ctx ex_llm)) = False
   \<and> re_confidence (fst (evaluateRule ex_env_failing ex_rule ex_event ex_ctx ex_llm)) = 0
   \<and> rr_matchedRules (fst (evaluateRules ex_env_failing ex_event ex_ctx ex_agent)) = []
   \<and> rr_falsePositiveRisk (fst (evaluateRules ex_env_failing ex_event ex_ctx ex_agent)) = 0
   \<and> (\<exists>pre. calls (processEventPipeline ex_env_failing ex_event ex_agent)
               = pre @ [UpdateBaseline ''ev1'', UpdateGraph ''ev1'', UpdateWithEvent ''ev1''])
   \<and> llmService (processEventPipeline ex_env_failing ex_event ex_agent) = ex_llm\<lparr>llm_requests := 1\<rparr>
   \<and> recommendationsCreated (processEventPipeline ex_env_failing ex_event ex_agent) = 0
   \<and> baselines (behavioralAnalytics (processEventPipeline ex_env_failing ex_event ex_agent)) ''u1''
       = Some (updatedBaseline ex_config ex_date ex_baseline ex_event)
   \<and> baselines (behavioralAnalytics (processEventPipeline ex_env_failing ex_event ex_agent)) ''u2''
       = Some (updatedBaseline ex_config ex_date (freshBaseline ex_date ''u2'' ''user'') ex_event)
   \<and> confidence (updatedBaseline ex_config ex_date (freshBaseline ex_date ''u2'' ''user'') ex_event) = 11 / 100"
proof -
  have f: "\<forall>l. oracleFails ex_env_failing l"
    by (simp add: oracleFails_def ex_env_failing_def)
  have ec: "behavioral_config ex_env_failing = ex_config" "clock ex_env_failing = ex_date"
    by (simp_all add: ex_env_failing_def)
  obtain br ba where a:
    "analyzeEvent (behavioral_config ex_env_failing) (clock ex_env_failing) ex_event
       (behavioralAnalytics ex_agent) = (Inr br, ba)"
    using analyzeEvent_connected[of "behavioralAnalytics ex_agent" "behavioral_config ex_env_failing"
        "clock ex_env_failing" ex_event]
    by (auto simp add: ex_agent_def ex_engine_def)
  obtain cr where c:
    "correlateEvent (graph_config ex_env_failing) (graph_db ex_env_failing) (graphCorrelation ex_agent)
       ex_event = Inr cr"
    using correlateEvent_initialized[of "graphCorrelation ex_agent" "graph_config ex_env_failing"
        "graph_db ex_env_failing" ex_event]
    by (auto simp add: ex_agent_def ex_graph_engine_def)
  have e: "enrichEvent ex_env_failing ex_event ex_agent = Inr ex_enrichment"
    by (simp add: enrichEvent_def ex_agent_def ex_env_failing_def)
  have i: "ev_id ex_event = ''ev1''" by (simp add: ex_event_def)
  note t = failing_oracle_degrades[of ex_env_failing ex_llm ex_rule ex_event ex_ctx "[]" False 0 "[]"
      ex_agent br ba cr ex_enrichment]
  from t f a c e have 1:
    "matches (fst (evaluateRule ex_env_failing ex_rule ex_event ex_ctx ex_llm)) = False"
    "re_confidence (fst (evaluateRule ex_env_failing ex_rule ex_event ex_ctx ex_llm)) = 0"
    "rr_matchedRules (fst (evaluateRules ex_env_failing ex_event ex_ctx ex_agent)) = []"
    "rr_falsePositiveRisk (fst (evaluateRules ex_env_failing ex_event ex_ctx ex_agent)) = 0"
    "\<exists>pre. calls (processEventPipeline ex_env_failing ex_event ex_agent)
               = pre @ [UpdateBaseline ''ev1'', UpdateGraph ''ev1'', UpdateWithEvent ''ev1'']"
    by (simp_all add: i)
  from t f a c e have p:
    "processEventPipeline ex_env_failing ex_event ex_agent
       = updateLearningModels ex_env_failing ex_event
           (snd (evaluateRules ex_env_failing ex_event
                   \<lparr>ctx_behavioral = br, ctx_correlation = cr, ctx_enrichment = ex_enrichment\<rparr>
                   (stagesDone ex_event ba ex_agent)))"
    by blast
  from t a c e have "behavioralAnalytics (processEventPipeline ex_env_failing ex_event ex_agent)
       = updateBaseline (behavioral_config ex_env_failing) (clock ex_env_failing) ex_event ba"
    by blast
  then have b:
    "behavioralAnalytics (processEventPipeline ex_env_failing ex_event ex_agent)
       = updateBaseline ex_config ex_date ex_event ba"
    by (simp only: ec)
  have 2: "llmService (processEventPipeline ex_env_failing ex_event ex_agent) = ex_llm\<lparr>llm_requests := 1\<rparr>"
    "recommendationsCreated (processEventPipeline ex_env_failing ex_event ex_agent) = 0"
    unfolding p by (simp_all add: ex_rules_llm)
  have ba: "ba = snd (analyzeEvent ex_config ex_date ex_event ex_engine)"
    using a by (simp add: ec ex_agent_def)
  have st: "baselines ba ''u1'' = Some ex_baseline"
    "baselines ba ''u2'' = Some (freshBaseline ex_date ''u2'' ''user'')"
    "db_isConnected ba"
    unfolding ba by (simp_all add: ex_analysis_store)
  have fl: "filed ba"
    unfolding ba filed_def by (simp add: ex_analysis_store freshBaseline_def ex_baseline_def)
  from updateBaseline_loop_connected[OF fl st(3), of ex_config ex_date ex_event "entityEntries ex_event"]
  obtain s' where
    s': "updateBaseline_loop ex_config ex_date ex_event (entityEntries ex_event) ba = (Inr (), s')"
        "\<forall>k b. baselines ba k = Some b \<longrightarrow>
           baselines s' k = Some (((\<lambda>b. updatedBaseline ex_config ex_date b ex_event)
                                     ^^ count_list (map (\<lambda>ke. e_id (snd ke)) (entityEntries ex_event)) k) b)"
    by blast
  have cnt: "count_list (map (\<lambda>ke. e_id (snd ke)) (entityEntries ex_event)) ''u1'' = 1"
    "count_list (map (\<lambda>ke. e_id (snd ke)) (entityEntries ex_event)) ''u2'' = 1"
    by (simp_all add: entityEntries_def Object_entries_def ex_event_def ex_user_def)
  have u: "updateBaseline ex_config ex_date ex_event ba = s'"
    using s'(1) by (simp add: updateBaseline_def)
  from s'(2) st(1) cnt(1) have 3:
    "baselines (behavioralAnalytics (processEventPipeline ex_env_failing ex_event ex_agent)) ''u1''
       = Some (updatedBaseline ex_config ex_date ex_baseline ex_event)"
    unfolding b u by force
  from s'(2) st(2) cnt(2) have 4:
    "baselines (behavioralAnalytics (processEventPipeline ex_env_failing ex_event ex_agent)) ''u2''
       = Some (updatedBaseline ex_config ex_date (freshBaseline ex_date ''u2'' ''user'') ex_event)"
    unfolding b u by force
  have 5: "confidence (updatedBaseline ex_config ex_date (freshBaseline ex_date ''u2'' ''user'') ex_event) = 11 / 100"
    by (simp add: updatedBaseline_fields freshBaseline_def)
  from 1 2 3 4 5 show ?thesis by blast
qed

text \<open>A rule with three true positives, one false positive and five false negatives, and
  a feedback that is not a false positive: accuracy and precision are both 4/5.\<close>

theorem rule_accuracy_is_precision_witness:
  "\<exists>rule'. map_of (activeRules (updateRulePerformance ex_env_failing ''r1'' ex_feedback ex_agent)) ''r1''
              = Some rule'
      \<and> accuracy (performance rule') = 4 / 5
      \<and> precision (performance rule') = 4 / 5
      \<and> falseNegatives (performance rule') = 5"
proof -
  have m: "map_of (activeRules ex_agent) ''r1'' = Some ex_rule" by (simp add: ex_agent_def)
  from rule_accuracy_is_precision[of ex_agent "''r1''" ex_rule ex_env_failing ex_feedback] m
  obtain rule' where
    r: "map_of (activeRules (updateRulePerformance ex_env_failing ''r1'' ex_feedback ex_agent)) ''r1''
          = Some rule'"
       "accuracy (performance rule') = precision (performance rule')"
       "accuracy (performance rule')
          = real (truePositives (performance ex_rule) + (if isFalsePositive ex_feedback then 0 else 1))
            / real (truePositives (performance ex_rule) + falsePositives (performance ex_rule) + 1)"
       "falseNegatives (performance rule') = falseNegatives (performance ex_rule)"
    by blast
  from r(3) have "accuracy (performance rule') = 4 / 5"
    by (simp add: ex_rule_def ex_perf_def ex_feedback_def)
  with r show ?thesis by (simp add: ex_rule_def ex_perf_def)
qed

text \<open>A language model that answers with a match of confidence 0.95, and a rule without
  techniques: the rule is matched, and no recommendation is asked for.\<close>

theorem recommendation_flag_witness:
  "hasSimilarRule ex_rule ex_event
   \<and> rr_matchedRules (fst (evaluateRules ex_env_matching ex_event ex_ctx ex_agent)) = [ex_rule]
   \<and> \<not> rr_needsRecommendation (fst (evaluateRules ex_env_matching ex_event ex_ctx ex_agent))"
proof -
  have n: "noTechnique ex_rule" by (simp add: noTechnique_def ex_rule_def)
  have a: "\<forall>rule \<in> set (map snd (activeRules ex_agent)). noTechnique rule"
    using n by (simp add: ex_agent_def)
  have m: "rr_matchedRules (fst (evaluateRules ex_env_matching ex_event ex_ctx ex_agent)) = [ex_rule]"
    by (simp add: evaluateRules_def evaluateRules_step_def evaluateRule_def LLMService_evaluateRule_def
        ex_agent_def ex_llm_def ex_env_matching_def ex_match_def Let_def)
  from recommendation_flag[of ex_rule ex_event ex_env_matching ex_ctx "[]" False 0 ex_llm ex_agent] n a
  have "hasSimilarRule ex_rule ex_event"
    and "\<not> rr_needsRecommendation (fst (evaluateRules ex_env_matching ex_event ex_ctx ex_agent))"
    by blast+
  with m show ?thesis by blast
qed

subsection \<open>Score, then update\<close>

lemma scan_quiet: "quiet trace \<Longrightarrow> scan pending trace = Some pending"
proof (induction trace)
  case Nil
  show ?case by simp
next
  case (Cons c trace)
  then show ?case by (cases c) (simp_all add: quiet_def)
qed

lemma scan_append:
  "scan pending (xs @ ys) = (case scan pending xs of None \<Rightarrow> None | Some p \<Rightarrow> scan p ys)"
proof (induction xs arbitrary: pending)
  case Nil
  show ?case by simp
next
  case (Cons c xs)
  show ?case by (cases c) (simp_all add: Cons.IH)
qed

lemma quiet_not_member: "quiet trace \<Longrightarrow> AnalyzeEvent e \<notin> set trace \<and> UpdateBaseline e \<notin> set trace"
  by (induction trace) (auto simp add: quiet_def)

text \<open>One run of the pipeline: the analysis on the state of the engine at the start, then
  calls that neither analyse nor update, then, unless a stage has thrown, the update on
  the state that the analysis has left.\<close>

lemma pipeline_run:
  "\<exists>mid. calls (processEventPipeline env event s) = calls s @ AnalyzeEvent (ev_id event) # mid
     \<and> ((quiet mid
          \<and> behavioralAnalytics (processEventPipeline env event s)
              = snd (analyzeEvent (behavioral_config env) (clock env) event (behavioralAnalytics s)))
        \<or> (\<exists>pre post. mid = pre @ UpdateBaseline (ev_id event) # post \<and> quiet pre \<and> quiet post
              \<and> behavioralAnalytics (processEventPipeline env event s)
                  = updateBaseline (behavioral_config env) (clock env) event
                      (snd (analyzeEvent (behavioral_config env) (clock env) event (behavioralAnalytics s)))))"
proof -
  obtain r ba where a:
    "analyzeEvent (behavioral_config env) (clock env) event (behavioralAnalytics s) = (r, ba)"
    by (cases "analyzeEvent (behavioral_config env) (clock env) event (behavioralAnalytics s)")
  show ?thesis
  proof (cases r)
    case (Inl err)
    with a pipeline_analysis_throws[of env event s err ba] show ?thesis
      by (intro exI[of _ "[]"]) (simp add: quiet_def)
  next
    case (Inr br)
    note br = this
    show ?thesis
    proof (cases "correlateEvent (graph_config env) (graph_db env) (graphCorrelation s) event")
      case (Inl err)
      with a br pipeline_correlation_throws[of env event s br ba err] show ?thesis
        by (intro exI[of _ "[CorrelateEvent (ev_id event)]"]) (simp add: quiet_def)
    next
      case (Inr cr)
      note cr = this
      show ?thesis
      proof (cases "enrichEvent env event s")
        case (Inl err)
        with a br cr pipeline_enrichment_throws[of env event s br ba cr err] show ?thesis
          by (intro exI[of _ "[CorrelateEvent (ev_id event), EnrichEvent (ev_id event)]"])
             (simp add: quiet_def)
      next
        case (Inr en)
        with a br cr pipeline_completes[of env event s br ba cr en] obtain m where
          m: "calls (processEventPipeline env event s)
                = calls s @ [AnalyzeEvent (ev_id event), CorrelateEvent (ev_id event),
                             EnrichEvent (ev_id event), EvaluateRules (ev_id event)] @ m
                    @ [UpdateBaseline (ev_id event), UpdateGraph (ev_id event), UpdateWithEvent (ev_id event)]"
             "m = [] \<or> m = [GenerateRecommendations (ev_id event)]"
             "behavioralAnalytics (processEventPipeline env event s)
                = updateBaseline (behavioral_config env) (clock env) event ba"
          by blast
        let ?pre = "[CorrelateEvent (ev_id event), EnrichEvent (ev_id event), EvaluateRules (ev_id event)] @ m"
        let ?post = "[UpdateGraph (ev_id event), UpdateWithEvent (ev_id event)]"
        have q: "quiet ?pre" "quiet ?post" using m(2) by (auto simp add: quiet_def)
        show ?thesis
          using m(1) m(3) a q
          by (intro exI[of _ "?pre @ UpdateBaseline (ev_id event) # ?post"] conjI disjI2
                exI[of _ ?pre] exI[of _ ?post]) simp_all
      qed
    qed
  qed
qed

lemma pipeline_scan:
  "scan [] (calls s) = Some p \<Longrightarrow> \<exists>p'. scan [] (calls (processEventPipeline env event s)) = Some p'"
proof -
  assume p: "scan [] (calls s) = Some p"
  from pipeline_run[of env event s] obtain mid where
    c: "calls (processEventPipeline env event s) = calls s @ AnalyzeEvent (ev_id event) # mid"
    and m: "quiet mid
            \<or> (\<exists>pre post. mid = pre @ UpdateBaseline (ev_id event) # post \<and> quiet pre \<and> quiet post)"
    by blast
  from m show ?thesis
  proof
    assume "quiet mid"
    then show ?thesis by (simp add: c scan_append p scan_quiet)
  next
    assume "\<exists>pre post. mid = pre @ UpdateBaseline (ev_id event) # post \<and> quiet pre \<and> quiet post"
    then obtain pre post where
      "mid = pre @ UpdateBaseline (ev_id event) # post" "quiet pre" "quiet post"
      by blast
    then show ?thesis by (simp add: c scan_append p scan_quiet)
  qed
qed

lemma drainQueue_scan:
  "scan [] (calls s) = Some p \<Longrightarrow> \<exists>p'. scan [] (calls (drainQueue env es s)) = Some p'"
proof (induction es arbitrary: s p)
  case Nil
  then show ?case by simp
next
  case (Cons event rest)
  from Cons.prems have "scan [] (calls (s\<lparr>processingQueue := rest\<rparr>)) = Some p" by simp
  from pipeline_scan[OF this, of env event] obtain p1 where
    "scan [] (calls (processEventPipeline env event (s\<lparr>processingQueue := rest\<rparr>))) = Some p1"
    by blast
  from Cons.IH[OF this] show ?case by simp
qed

lemma processEvent_scan:
  "scan [] (calls s) = Some p \<Longrightarrow> \<exists>p'. scan [] (calls (processEvent env event s)) = Some p'"
proof -
  assume p: "scan [] (calls s) = Some p"
  let ?s1 = "s\<lparr>processingQueue := processingQueue s @ [event]\<rparr>"
  have "\<exists>p'. scan [] (calls (processQueue env ?s1)) = Some p'"
  proof (cases "isProcessing ?s1 \<or> length (processingQueue ?s1) = 0")
    case True
    then show ?thesis using p by (simp add: processQueue_def)
  next
    case False
    from p have "scan [] (calls (?s1\<lparr>isProcessing := True\<rparr>)) = Some p" by simp
    from drainQueue_scan[OF this, of env "processingQueue ?s1"] False
    show ?thesis by (simp add: processQueue_def)
  qed
  then show ?thesis using p by (simp add: processEvent_def Let_def)
qed

text \<open>
  Claim C1. A run of the pipeline on an event calls \<^verbatim>\<open>analyzeEvent\<close> first, on the state
  that the behavioural engine has when the run starts, and makes no second analysis; it
  calls \<^verbatim>\<open>updateBaseline\<close> for the event at most once and only later in the run, and for no
  other event; and the state that the run leaves in the engine is the one that the
  analysis has left when no update was called, and the update of that state when it was.
  So the scores of an event are taken from the baselines as they are before the event's
  own update. Over the runs that \<^verbatim>\<open>processEvent\<close> starts, the log of the agent keeps
  the order: every call of \<^verbatim>\<open>updateBaseline\<close> for an event comes after a call of
  \<^verbatim>\<open>analyzeEvent\<close> for that event that no earlier update has used.
\<close>

theorem score_then_update:
  "(\<exists>mid. pipelineLog env event s = AnalyzeEvent (ev_id event) # mid
      \<and> (\<forall>e. AnalyzeEvent e \<notin> set mid)
      \<and> (\<forall>e. e \<noteq> ev_id event \<longrightarrow> UpdateBaseline e \<notin> set mid)
      \<and> count_list mid (UpdateBaseline (ev_id event)) \<le> 1
      \<and> behavioralAnalytics (processEventPipeline env event s)
          = (if UpdateBaseline (ev_id event) \<in> set mid
             then updateBaseline (behavioral_config env) (clock env) event
                    (snd (analyzeEvent (behavioral_config env) (clock env) event (behavioralAnalytics s)))
             else snd (analyzeEvent (behavioral_config env) (clock env) event (behavioralAnalytics s))))
   \<and> calls (processEventPipeline env event s) = calls s @ pipelineLog env event s
   \<and> (scoreThenUpdate (calls s) \<longrightarrow> scoreThenUpdate (calls (processEvent env event s)))"
proof (intro conjI impI)
  from pipeline_run[of env event s] obtain mid where
    c: "calls (processEventPipeline env event s) = calls s @ AnalyzeEvent (ev_id event) # mid"
    and m: "(quiet mid
          \<and> behavioralAnalytics (processEventPipeline env event s)
              = snd (analyzeEvent (behavioral_config env) (clock env) event (behavioralAnalytics s)))
        \<or> (\<exists>pre post. mid = pre @ UpdateBaseline (ev_id event) # post \<and> quiet pre \<and> quiet post
              \<and> behavioralAnalytics (processEventPipeline env event s)
                  = updateBaseline (behavioral_config env) (clock env) event
                      (snd (analyzeEvent (behavioral_config env) (clock env) event (behavioralAnalytics s))))"
    by blast
  have l: "pipelineLog env event s = AnalyzeEvent (ev_id event) # mid"
    by (simp add: pipelineLog_def c)
  show "calls (processEventPipeline env event s) = calls s @ pipelineLog env event s"
    by (simp add: l c)
  have props: "(\<forall>e. AnalyzeEvent e \<notin> set mid)
      \<and> (\<forall>e. e \<noteq> ev_id event \<longrightarrow> UpdateBaseline e \<notin> set mid)
      \<and> count_list mid (UpdateBaseline (ev_id event)) \<le> 1
      \<and> behavioralAnalytics (processEventPipeline env event s)
          = (if UpdateBaseline (ev_id event) \<in> set mid
             then updateBaseline (behavioral_config env) (clock env) event
                    (snd (analyzeEvent (behavioral_config env) (clock env) event (behavioralAnalytics s)))
             else snd (analyzeEvent (behavioral_config env) (clock env) event (behavioralAnalytics s)))"
    using m
  proof
    assume q: "quiet mid
          \<and> behavioralAnalytics (processEventPipeline env event s)
              = snd (analyzeEvent (behavioral_config env) (clock env) event (behavioralAnalytics s))"
    then have n: "\<And>e. AnalyzeEvent e \<notin> set mid \<and> UpdateBaseline e \<notin> set mid"
      by (simp add: quiet_not_member)
    then have "count_list mid (UpdateBaseline (ev_id event)) = 0"
      by (simp add: count_list_0_iff)
    with n q show ?thesis by simp
  next
    assume "\<exists>pre post. mid = pre @ UpdateBaseline (ev_id event) # post \<and> quiet pre \<and> quiet post
              \<and> behavioralAnalytics (processEventPipeline env event s)
                  = updateBaseline (behavioral_config env) (clock env) event
                      (snd (analyzeEvent (behavioral_config env) (clock env) event (behavioralAnalytics s)))"
    then obtain pre post where
      pp: "mid = pre @ UpdateBaseline (ev_id event) # post" "quiet pre" "quiet post"
          "behavioralAnalytics (processEventPipeline env event s)
             = updateBaseline (behavioral_config env) (clock env) event
                 (snd (analyzeEvent (behavioral_config env) (clock env) event (behavioralAnalytics s)))"
      by blast
    have n: "\<And>e. AnalyzeEvent e \<notin> set pre \<and> UpdateBaseline e \<notin> set pre
                \<and> AnalyzeEvent e \<notin> set post \<and> UpdateBaseline e \<notin> set post"
      using pp(2) pp(3) by (simp add: quiet_not_member)
    then have "count_list pre (UpdateBaseline (ev_id event)) = 0"
      and "count_list post (UpdateBaseline (ev_id event)) = 0"
      by (simp_all add: count_list_0_iff)
    then have "count_list mid (UpdateBaseline (ev_id event)) = 1"
      by (simp add: pp(1))
    with n pp show ?thesis by auto
  qed
  with l show "\<exists>mid. pipelineLog env event s = AnalyzeEvent (ev_id event) # mid
      \<and> (\<forall>e. AnalyzeEvent e \<notin> set mid)
      \<and> (\<forall>e. e \<noteq> ev_id event \<longrightarrow> UpdateBaseline e \<notin> set mid)
      \<and> count_list mid (UpdateBaseline (ev_id event)) \<le> 1
      \<and> behavioralAnalytics (processEventPipeline env event s)
          = (if UpdateBaseline (ev_id event) \<in> set mid
             then updateBaseline (behavioral_config env) (clock env) event
                    (snd (analyzeEvent (behavioral_config env) (clock env) event (behavioralAnalytics s)))
             else snd (analyzeEvent (behavioral_config env) (clock env) event (behavioralAnalytics s)))"
    by blast
next
  assume "scoreThenUpdate (calls s)"
  then obtain p where "scan [] (calls s) = Some p" by (auto simp add: scoreThenUpdate_def)
  from processEvent_scan[OF this, of env event] show "scoreThenUpdate (calls (processEvent env event s))"
    by (auto simp add: scoreThenUpdate_def)
qed

text \<open>An agent with an empty log takes one event; every stage returns, so the run logs
  the analysis first and the update of the baselines once.\<close>

theorem score_then_update_witness:
  "scoreThenUpdate (calls ex_agent)
   \<and> scoreThenUpdate (calls (processEvent ex_env_matching ex_event ex_agent))
   \<and> hd (pipelineLog ex_env_matching ex_event ex_agent) = AnalyzeEvent ''ev1''
   \<and> count_list (pipelineLog ex_env_matching ex_event ex_agent) (UpdateBaseline ''ev1'') = 1"
proof -
  have s: "scoreThenUpdate (calls ex_agent)" by (simp add: scoreThenUpdate_def ex_agent_def)
  have i: "ev_id ex_event = ''ev1''" by (simp add: ex_event_def)
  note t = score_then_update[of ex_env_matching ex_event ex_agent]
  from t s have 1: "scoreThenUpdate (calls (processEvent ex_env_matching ex_event ex_agent))" by blast
  from t obtain mid where
    m: "pipelineLog ex_env_matching ex_event ex_agent = AnalyzeEvent (ev_id ex_event) # mid"
       "count_list mid (UpdateBaseline (ev_id ex_event)) \<le> 1"
       "calls (processEventPipeline ex_env_matching ex_event ex_agent)
          = calls ex_agent @ pipelineLog ex_env_matching ex_event ex_agent"
    by blast
  obtain br ba where a:
    "analyzeEvent (behavioral_config ex_env_matching) (clock ex_env_matching) ex_event
       (behavioralAnalytics ex_agent) = (Inr br, ba)"
    using analyzeEvent_connected[of "behavioralAnalytics ex_agent" "behavioral_config ex_env_matching"
        "clock ex_env_matching" ex_event]
    by (auto simp add: ex_agent_def ex_engine_def)
  obtain cr where c:
    "correlateEvent (graph_config ex_env_matching) (graph_db ex_env_matching) (graphCorrelation ex_agent)
       ex_event = Inr cr"
    using correlateEvent_initialized[of "graphCorrelation ex_agent" "graph_config ex_env_matching"
        "graph_db ex_env_matching" ex_event]
    by (auto simp add: ex_agent_def ex_graph_engine_def)
  have e: "enrichEvent ex_env_matching ex_event ex_agent = Inr ex_enrichment"
    by (simp add: enrichEvent_def ex_agent_def ex_env_matching_def)
  from pipeline_completes[OF a c e] obtain x where
    x: "calls (processEventPipeline ex_env_matching ex_event ex_agent)
       = calls ex_agent @ [AnalyzeEvent (ev_id ex_event), CorrelateEvent (ev_id ex_event),
                           EnrichEvent (ev_id ex_event), EvaluateRules (ev_id ex_event)] @ x
           @ [UpdateBaseline (ev_id ex_event), UpdateGraph (ev_id ex_event), UpdateWithEvent (ev_id ex_event)]"
    by blast
  from x m(3) have "pipelineLog ex_env_matching ex_event ex_agent
       = [AnalyzeEvent (ev_id ex_event), CorrelateEvent (ev_id ex_event),
          EnrichEvent (ev_id ex_event), EvaluateRules (ev_id ex_event)] @ x
           @ [UpdateBaseline (ev_id ex_event), UpdateGraph (ev_id ex_event), UpdateWithEvent (ev_id ex_event)]"
    by simp
  then have "UpdateBaseline (ev_id ex_event) \<in> set (pipelineLog ex_env_matching ex_event ex_agent)"
    by simp
  with m(1) have "UpdateBaseline (ev_id ex_event) \<in> set mid" by simp
  then have "count_list mid (UpdateBaseline (ev_id ex_event)) \<noteq> 0"
    by (simp add: count_list_0_iff)
  with m(2) have "count_list mid (UpdateBaseline (ev_id ex_event)) = 1" by simp
  with m(1) s 1 show ?thesis by (simp add: i)
qed

end
